theory Spec2Isabelle
  imports
    Main
    "HOL-Library.AList"
    "HOL-Library.Char_ord"
    "HOL-Library.List_Lexorder"
    "HOL-Library.Multiset"
    "HOL-Library.Finite_Map"
begin

section \<open>Data model\<close>

text \<open>
  The package \<open>machineimages\<close> computes the machine images of a landscape from four
  catalogs.  The file \<open>machine_images.go\<close> holds the whole pipeline; the type
  declarations it uses live in a sibling file of the package and are modelled here from
  the specification.

  Go strings are byte sequences compared bytewise and lexicographically, which is the
  order of \<^typ>\<open>string\<close> given by the character order and the lexicographic order on
  lists.

  A value of a Go map type is a reference: it is nil or it refers to a map object, and
  copying the value copies the reference.  The pipeline stores such references in its
  slices and writes into the map objects of the caller, so the map objects live in an
  explicit store that the functions read and, in the enrichment stage, update.
\<close>

text \<open>
  Modelled from the spec: the values of a version record (\<open>interface{}\<close> in Go).  The
  record is "a mapping from string keys to arbitrary values".  A value is a string, a
  floating-point NaN, or a value of some other dynamic type on which deep equality is
  structural.
\<close>

datatype 'a val = VString string | VNaN | VOther 'a

text \<open>
  Modelled from the spec: \<open>MachineImageVersion\<close>, "a mapping from string keys to
  arbitrary values (an open/extensible record)".  As a Go map value it is the nil map or
  the reference to a map object, named by its address.
\<close>

datatype MachineImageVersion = NilMap | MapObject nat

text \<open>The store gives the entries of the map object at each address.\<close>

type_synonym 'a heap = "nat \<Rightarrow> (string, 'a val) fmap"

text \<open>Reading a nil map finds no entry.\<close>

definition entries :: "'a heap \<Rightarrow> MachineImageVersion \<Rightarrow> (string, 'a val) fmap" where
  "entries h m = (case m of NilMap \<Rightarrow> fmempty | MapObject a \<Rightarrow> h a)"

text \<open>
  Modelled from the spec: \<open>MachineImage\<close>, \<open>{ name: string, versions: ordered sequence
  of MachineImageVersion }\<close>.
\<close>

record MachineImage =
  Name :: string
  Versions :: "MachineImageVersion list"

text \<open>
  Modelled from the spec: \<open>OsImage\<close>, the flat record \<open>{ name: string, version:
  VersionRecord }\<close>.
\<close>

record OsImage =
  Name :: string
  Version :: MachineImageVersion

text \<open>
  Modelled from the spec: \<open>OsImagesFilterKind\<close>, "an enumerated tag identifying a filter
  category (includes a special All sentinel)".
\<close>

datatype OsImagesFilterKind = OsImagesFilterKindAll | OsImagesFilterKindNamed string

text \<open>
  Modelled from the spec: the constant \<open>OsNameGardenLinux\<close>, the distinguished name
  "GardenLinux".
\<close>

definition OsNameGardenLinux :: string where
  "OsNameGardenLinux = ''GardenLinux''"

text \<open>
  Modelled from the spec: the accessor \<open>getVersion\<close> of a version record.  It extracts
  the "version" field and "returns nil if absent"; \<open>None\<close> is the nil pointer.
\<close>

definition getVersion :: "'a heap \<Rightarrow> MachineImageVersion \<Rightarrow> string option" where
  "getVersion h m =
     (case fmlookup (entries h m) ''version'' of
        Some (VString s) \<Rightarrow> Some s
      | _ \<Rightarrow> None)"

text \<open>
  What a call can end with other than a result: an error value built by \<open>fmt.Errorf\<close>
  with its message, the run-time panic of dereferencing a nil pointer, or the run-time
  panic of storing an entry into a nil map.
\<close>

datatype error = Errorf string | PanicNilDereference | PanicNilMapAssignment

definition ConflictingFilters :: error where
  "ConflictingFilters = Errorf ''exclude filter list contains element of include list''"

section \<open>\<open>reflect.DeepEqual\<close> on flat images\<close>

text \<open>
  \<open>reflect.DeepEqual\<close> of the Go library compares two \<open>OsImage\<close> structs field by
  field.  Strings are compared by value.  Two map values are deeply equal when both are
  nil or both are not nil, they have the same number of entries, and either they are the
  same map object or every key of the first has, in the second, a deeply equal value.
  Two interface values are deeply equal when they hold deeply equal values of the same
  dynamic type; a NaN is not deeply equal to itself.
\<close>

fun DeepEqual_value :: "'a val \<Rightarrow> 'a val \<Rightarrow> bool" where
  "DeepEqual_value (VString s) (VString t) = (s = t)"
| "DeepEqual_value (VOther a) (VOther b) = (a = b)"
| "DeepEqual_value v1 v2 = False"

definition DeepEqual_map :: "'a heap \<Rightarrow> MachineImageVersion \<Rightarrow> MachineImageVersion \<Rightarrow> bool" where
  "DeepEqual_map h m1 m2 =
     (case (m1, m2) of
        (NilMap, NilMap) \<Rightarrow> True
      | (MapObject a1, MapObject a2) \<Rightarrow>
          if fcard (fmdom (h a1)) \<noteq> fcard (fmdom (h a2)) then False
          else if a1 = a2 then True
          else fmpred (\<lambda>k v1. case fmlookup (h a2) k of
                                 None \<Rightarrow> False
                               | Some v2 \<Rightarrow> DeepEqual_value v1 v2) (h a1)
      | _ \<Rightarrow> False)"

definition DeepEqual :: "'a heap \<Rightarrow> OsImage \<Rightarrow> OsImage \<Rightarrow> bool" where
  "DeepEqual h x y =
     (OsImage.Name x = OsImage.Name y \<and> DeepEqual_map h (Version x) (Version y))"

section \<open>The functions of \<open>machine_images.go\<close>\<close>

subsection \<open>\<open>validateFilters\<close>\<close>

fun validateFilters_exclude :: "OsImagesFilterKind \<Rightarrow> OsImagesFilterKind list \<Rightarrow> error option" where
  "validateFilters_exclude include [] = None"
| "validateFilters_exclude include (exclude # excludeFilters) =
     (if include = exclude then Some ConflictingFilters
      else validateFilters_exclude include excludeFilters)"

fun validateFilters :: "OsImagesFilterKind list \<Rightarrow> OsImagesFilterKind list \<Rightarrow> error option" where
  "validateFilters [] excludeFilters = None"
| "validateFilters (include # includeFilters) excludeFilters =
     (case validateFilters_exclude include excludeFilters of
        Some err \<Rightarrow> Some err
      | None \<Rightarrow> validateFilters includeFilters excludeFilters)"

subsection \<open>\<open>contains\<close>\<close>

fun contains :: "string list \<Rightarrow> string \<Rightarrow> bool" where
  "contains [] str = False"
| "contains (v # s) str = (if v = str then True else contains s str)"

subsection \<open>\<open>removeDuplicates\<close>\<close>

text \<open>
  The inner loop scans \<open>result\<close> for an entry deeply equal to \<open>nextImage\<close>; the outer
  loop appends \<open>nextImage\<close> to \<open>result\<close> when there is none.
\<close>

fun removeDuplicates_found :: "'a heap \<Rightarrow> OsImage \<Rightarrow> OsImage list \<Rightarrow> bool" where
  "removeDuplicates_found h nextImage [] = False"
| "removeDuplicates_found h nextImage (nextResult # result) =
     (if DeepEqual h nextImage nextResult then True
      else removeDuplicates_found h nextImage result)"

fun removeDuplicates_loop :: "'a heap \<Rightarrow> OsImage list \<Rightarrow> OsImage list \<Rightarrow> OsImage list" where
  "removeDuplicates_loop h result [] = result"
| "removeDuplicates_loop h result (nextImage # images) =
     (if \<not> removeDuplicates_found h nextImage result
      then removeDuplicates_loop h (result @ [nextImage]) images
      else removeDuplicates_loop h result images)"

definition removeDuplicates :: "'a heap \<Rightarrow> OsImage list \<Rightarrow> OsImage list" where
  "removeDuplicates h images = removeDuplicates_loop h [] images"

subsection \<open>\<open>flatImages\<close>\<close>

fun flatImages_versions :: "string \<Rightarrow> OsImage list \<Rightarrow> MachineImageVersion list \<Rightarrow> OsImage list" where
  "flatImages_versions name result [] = result"
| "flatImages_versions name result (nextVersion # versions) =
     flatImages_versions name
       (result @ [\<lparr>OsImage.Name = name, Version = nextVersion\<rparr>]) versions"

fun flatImages_loop :: "OsImage list \<Rightarrow> MachineImage list \<Rightarrow> OsImage list" where
  "flatImages_loop result [] = result"
| "flatImages_loop result (nextImage # images) =
     flatImages_loop
       (flatImages_versions (MachineImage.Name nextImage) result (Versions nextImage)) images"

definition flatImages :: "MachineImage list \<Rightarrow> OsImage list" where
  "flatImages images = flatImages_loop [] images"

subsection \<open>\<open>convertOsImagesToMachineImages\<close>\<close>

text \<open>
  The local map \<open>m\<close> from names to version lists is an association list with distinct
  keys, in the order in which the names were first stored.  Go iterates over a map in an
  unspecified order: the second loop ranges over \<open>rangeOrder m\<close>, where \<open>rangeOrder\<close> is
  a parameter of the model that rearranges the entries.
\<close>

fun convertOsImagesToMachineImages_fill ::
  "(string \<times> MachineImageVersion list) list \<Rightarrow> OsImage list
    \<Rightarrow> (string \<times> MachineImageVersion list) list" where
  "convertOsImagesToMachineImages_fill m [] = m"
| "convertOsImagesToMachineImages_fill m (img # images) =
     convertOsImagesToMachineImages_fill
       (case map_of m (OsImage.Name img) of
          None \<Rightarrow> AList.update (OsImage.Name img) [Version img] m
        | Some versions \<Rightarrow> AList.update (OsImage.Name img) (versions @ [Version img]) m)
       images"

fun convertOsImagesToMachineImages_result ::
  "MachineImage list \<Rightarrow> (string \<times> MachineImageVersion list) list \<Rightarrow> MachineImage list" where
  "convertOsImagesToMachineImages_result result [] = result"
| "convertOsImagesToMachineImages_result result ((name, versions) # m) =
     convertOsImagesToMachineImages_result
       (result @ [\<lparr>MachineImage.Name = name, Versions = versions\<rparr>]) m"

definition convertOsImagesToMachineImages ::
  "((string \<times> MachineImageVersion list) list \<Rightarrow> (string \<times> MachineImageVersion list) list)
    \<Rightarrow> OsImage list \<Rightarrow> MachineImage list" where
  "convertOsImagesToMachineImages rangeOrder images =
     convertOsImagesToMachineImages_result []
       (rangeOrder (convertOsImagesToMachineImages_fill [] images))"

subsection \<open>\<open>getVersionConfig\<close>\<close>

text \<open>
  The pointer that \<open>getVersionConfigInternal\<close> returns points to a copy of the map value
  of the record found, that is, to the same map object; \<open>None\<close> is the nil pointer.
\<close>

fun getVersionConfigInternal_versions ::
  "'a heap \<Rightarrow> string \<Rightarrow> MachineImageVersion list \<Rightarrow> MachineImageVersion option" where
  "getVersionConfigInternal_versions h versionNumber [] = None"
| "getVersionConfigInternal_versions h versionNumber (nextVersion # versions) =
     (case getVersion h nextVersion of
        None \<Rightarrow> getVersionConfigInternal_versions h versionNumber versions
      | Some v \<Rightarrow>
          if v = versionNumber then Some nextVersion
          else getVersionConfigInternal_versions h versionNumber versions)"

fun getVersionConfigInternal ::
  "'a heap \<Rightarrow> string \<Rightarrow> string \<Rightarrow> MachineImage list \<Rightarrow> MachineImageVersion option" where
  "getVersionConfigInternal h imageName versionNumber [] = None"
| "getVersionConfigInternal h imageName versionNumber (nextImage # images) =
     (if MachineImage.Name nextImage = imageName then
        (case getVersionConfigInternal_versions h versionNumber (Versions nextImage) of
           Some nextVersion \<Rightarrow> Some nextVersion
         | None \<Rightarrow> getVersionConfigInternal h imageName versionNumber images)
      else getVersionConfigInternal h imageName versionNumber images)"

definition getVersionConfig ::
  "'a heap \<Rightarrow> string \<Rightarrow> string \<Rightarrow> MachineImage list \<Rightarrow> MachineImage list
    \<Rightarrow> MachineImageVersion option" where
  "getVersionConfig h imageName versionNumber providerLandscapeOsImages providerOsImages =
     (let config = getVersionConfigInternal h imageName versionNumber providerLandscapeOsImages
      in if config \<noteq> None then config
         else getVersionConfigInternal h imageName versionNumber providerOsImages)"

subsection \<open>\<open>getFilteredMachineImages\<close>\<close>

text \<open>
  The statement \<open>nextVersion[nextKey] = nextValue\<close> stores an entry into the map object
  that \<open>nextVersion\<close> refers to, which is the map object of the caller's catalog; storing
  into a nil map is a panic.
\<close>

definition mapassign ::
  "'a heap \<Rightarrow> MachineImageVersion \<Rightarrow> string \<Rightarrow> 'a val \<Rightarrow> error option \<times> 'a heap" where
  "mapassign h m key v =
     (case m of
        NilMap \<Rightarrow> (Some PanicNilMapAssignment, h)
      | MapObject a \<Rightarrow> (None, h(a := fmupd key v (h a))))"

text \<open>
  The loop \<open>for nextKey, nextValue := range *config\<close> stores every entry of the config
  record into the version record.  It is run here over the entries that the config
  record has when the loop starts, in key order.  The loop creates no entry in the
  config record (when both records are one map object, it stores the values the entries
  already have), and the store it ends with is the same for every order, since the keys
  of a map are distinct (lemma \<open>mergeConfig_any_order\<close> below).
\<close>

fun mergeConfig_loop ::
  "'a heap \<Rightarrow> MachineImageVersion \<Rightarrow> (string \<times> 'a val) list \<Rightarrow> error option \<times> 'a heap" where
  "mergeConfig_loop h nextVersion [] = (None, h)"
| "mergeConfig_loop h nextVersion ((nextKey, nextValue) # rest) =
     (case mapassign h nextVersion nextKey nextValue of
        (Some panic, h') \<Rightarrow> (Some panic, h')
      | (None, h') \<Rightarrow> mergeConfig_loop h' nextVersion rest)"

definition mergeConfig ::
  "'a heap \<Rightarrow> MachineImageVersion \<Rightarrow> MachineImageVersion \<Rightarrow> error option \<times> 'a heap" where
  "mergeConfig h config nextVersion =
     mergeConfig_loop h nextVersion (sorted_list_of_fmap (entries h config))"

text \<open>
  The inner loop over the versions of one image.  The source dereferences the pointer
  returned by \<open>getVersion\<close> without a check, so a nil pointer there is a panic.  The
  version appended to \<open>versionsWithConfig\<close> is the reference \<open>nextVersion\<close> itself, whose
  map object now holds the entries of the config record.
\<close>

fun getFilteredMachineImages_versions ::
  "'a heap \<Rightarrow> string \<Rightarrow> MachineImage list \<Rightarrow> MachineImage list \<Rightarrow> MachineImageVersion list
    \<Rightarrow> MachineImageVersion list \<Rightarrow> (error + MachineImageVersion list) \<times> 'a heap" where
  "getFilteredMachineImages_versions h name providerLandscapeOsImages providerOsImages
       versionsWithConfig [] = (Inr versionsWithConfig, h)"
| "getFilteredMachineImages_versions h name providerLandscapeOsImages providerOsImages
       versionsWithConfig (nextVersion # versions) =
     (case getVersion h nextVersion of
        None \<Rightarrow> (Inl PanicNilDereference, h)
      | Some versionNumber \<Rightarrow>
          (case getVersionConfig h name versionNumber providerLandscapeOsImages providerOsImages of
             Some config \<Rightarrow>
               (case mergeConfig h config nextVersion of
                  (Some panic, h') \<Rightarrow> (Inl panic, h')
                | (None, h') \<Rightarrow>
                    getFilteredMachineImages_versions h' name providerLandscapeOsImages
                      providerOsImages (versionsWithConfig @ [nextVersion]) versions)
           | None \<Rightarrow>
               getFilteredMachineImages_versions h name providerLandscapeOsImages providerOsImages
                 versionsWithConfig versions))"

fun getFilteredMachineImages_loop ::
  "'a heap \<Rightarrow> string list \<Rightarrow> MachineImage list \<Rightarrow> MachineImage list \<Rightarrow> MachineImage list
    \<Rightarrow> MachineImage list \<Rightarrow> (error + MachineImage list) \<times> 'a heap" where
  "getFilteredMachineImages_loop h disableMachineImages providerLandscapeOsImages providerOsImages
       filteredImages [] = (Inr filteredImages, h)"
| "getFilteredMachineImages_loop h disableMachineImages providerLandscapeOsImages providerOsImages
       filteredImages (nextImage # machineImages) =
     (if contains disableMachineImages (MachineImage.Name nextImage) then
        getFilteredMachineImages_loop h disableMachineImages providerLandscapeOsImages
          providerOsImages filteredImages machineImages
      else
        (case getFilteredMachineImages_versions h (MachineImage.Name nextImage)
                providerLandscapeOsImages providerOsImages [] (Versions nextImage) of
           (Inl panic, h') \<Rightarrow> (Inl panic, h')
         | (Inr versionsWithConfig, h') \<Rightarrow>
             if length versionsWithConfig > 0 then
               getFilteredMachineImages_loop h' disableMachineImages providerLandscapeOsImages
                 providerOsImages
                 (filteredImages @
                    [\<lparr>MachineImage.Name = MachineImage.Name nextImage,
                      Versions = versionsWithConfig\<rparr>])
                 machineImages
             else
               getFilteredMachineImages_loop h' disableMachineImages providerLandscapeOsImages
                 providerOsImages filteredImages machineImages))"

definition getFilteredMachineImages ::
  "'a heap \<Rightarrow> MachineImage list \<Rightarrow> string list \<Rightarrow> MachineImage list \<Rightarrow> MachineImage list
    \<Rightarrow> (error + MachineImage list) \<times> 'a heap" where
  "getFilteredMachineImages h machineImages disableMachineImages providerLandscapeOsImages
       providerOsImages =
     getFilteredMachineImages_loop h disableMachineImages providerLandscapeOsImages
       providerOsImages [] machineImages"

subsection \<open>\<open>sort.SliceStable\<close>\<close>

text \<open>
  \<open>sort.SliceStable\<close> of the Go library sorts a slice by a \<open>less\<close> function and keeps
  elements that \<open>less\<close> does not order in their original order.  It is modelled by the
  stable insertion sort: an element passes only the elements that are less than it.
\<close>

fun SliceStable_insert :: "('a \<Rightarrow> 'a \<Rightarrow> bool) \<Rightarrow> 'a \<Rightarrow> 'a list \<Rightarrow> 'a list" where
  "SliceStable_insert lessFn x [] = [x]"
| "SliceStable_insert lessFn x (y # ys) =
     (if lessFn y x then y # SliceStable_insert lessFn x ys else x # y # ys)"

definition SliceStable :: "('a \<Rightarrow> 'a \<Rightarrow> bool) \<Rightarrow> 'a list \<Rightarrow> 'a list" where
  "SliceStable lessFn xs = foldr (SliceStable_insert lessFn) xs []"

subsection \<open>\<open>ComputeMachineImages\<close>\<close>

text \<open>
  \<open>filterOsImages\<close> is defined in another file of the package and is a parameter of the
  model; it may read the map objects and, for all the model assumes, write to them.  The
  iteration order \<open>rangeOrder\<close> of the grouping map is a parameter as well.  The context
  and the logger do not influence the result and are left out.  The result is the pair of
  what the call returns and the store it leaves behind.
\<close>

definition ComputeMachineImages ::
  "('a heap \<Rightarrow> OsImage list \<Rightarrow> OsImagesFilterKind list \<Rightarrow> OsImagesFilterKind list
      \<Rightarrow> (error + OsImage list) \<times> 'a heap)
    \<Rightarrow> ((string \<times> MachineImageVersion list) list \<Rightarrow> (string \<times> MachineImageVersion list) list)
    \<Rightarrow> 'a heap
    \<Rightarrow> MachineImage list \<Rightarrow> MachineImage list \<Rightarrow> MachineImage list
    \<Rightarrow> MachineImage list \<Rightarrow> string list
    \<Rightarrow> OsImagesFilterKind list \<Rightarrow> OsImagesFilterKind list
    \<Rightarrow> (error + MachineImage list) \<times> 'a heap" where
  "ComputeMachineImages filterOsImages rangeOrder h lssOsImages landscapeOsImages providerOsImages
       providerLandscapeOsImages disableMachineImages includeFilters0 excludeFilters =
     (let includeFilters =
            (if length includeFilters0 = 0 then includeFilters0 @ [OsImagesFilterKindAll]
             else includeFilters0)
      in case validateFilters includeFilters excludeFilters of
           Some err \<Rightarrow> (Inl err, h)
         | None \<Rightarrow>
             (let flatLandscapeOsImages = flatImages landscapeOsImages;
                  flatLssOsImages = flatImages lssOsImages;
                  flatOsImages = removeDuplicates h (flatLandscapeOsImages @ flatLssOsImages)
              in case filterOsImages h flatOsImages includeFilters excludeFilters of
                   (Inl err, h') \<Rightarrow> (Inl err, h')
                 | (Inr flatOsImages', h') \<Rightarrow>
                     if length flatOsImages' = 0 then (Inr [], h')
                     else
                       (let machineImages = convertOsImagesToMachineImages rangeOrder flatOsImages';
                            machineImages1 =
                              SliceStable
                                (\<lambda>i j. MachineImage.Name i < MachineImage.Name j) machineImages;
                            machineImages2 =
                              SliceStable
                                (\<lambda>i j. MachineImage.Name i = OsNameGardenLinux
                                       \<and> MachineImage.Name j \<noteq> OsNameGardenLinux)
                                machineImages1
                        in getFilteredMachineImages h' machineImages2 disableMachineImages
                             providerLandscapeOsImages providerOsImages)))"

section \<open>The enrichment stage in the words of the specification\<close>

text \<open>
  The specification describes the enrichment stage by what it keeps.  The lookup scans
  the versions of the catalog images that bear the name for the first record with the
  version identifier, in the provider-landscape catalog first and in the provider-global
  catalog when the former has no match.  A version is kept when the lookup finds a
  record; an image is kept when it is not disabled and keeps at least one version.  The
  lookups read the store as it is when the stage starts.  These definitions are compared
  with \<open>getFilteredMachineImages\<close> below.
\<close>

definition spec_catalog_match ::
  "'a heap \<Rightarrow> string \<Rightarrow> string \<Rightarrow> MachineImage list \<Rightarrow> MachineImageVersion option" where
  "spec_catalog_match h imageName versionNumber catalog =
     List.find (\<lambda>config. getVersion h config = Some versionNumber)
       (concat (map Versions (filter (\<lambda>image. MachineImage.Name image = imageName) catalog)))"

definition spec_lookup ::
  "'a heap \<Rightarrow> string \<Rightarrow> MachineImage list \<Rightarrow> MachineImage list \<Rightarrow> MachineImageVersion
    \<Rightarrow> MachineImageVersion option" where
  "spec_lookup h imageName providerLandscape providerGlobal version =
     (case getVersion h version of
        None \<Rightarrow> None
      | Some versionNumber \<Rightarrow>
          (case spec_catalog_match h imageName versionNumber providerLandscape of
             Some config \<Rightarrow> Some config
           | None \<Rightarrow> spec_catalog_match h imageName versionNumber providerGlobal))"

definition spec_kept_versions ::
  "'a heap \<Rightarrow> string \<Rightarrow> MachineImage list \<Rightarrow> MachineImage list \<Rightarrow> MachineImageVersion list
    \<Rightarrow> MachineImageVersion list" where
  "spec_kept_versions h imageName providerLandscape providerGlobal versions =
     filter (\<lambda>version. spec_lookup h imageName providerLandscape providerGlobal version \<noteq> None)
       versions"

definition spec_Enricher ::
  "'a heap \<Rightarrow> MachineImage list \<Rightarrow> string list \<Rightarrow> MachineImage list \<Rightarrow> MachineImage list
    \<Rightarrow> MachineImage list" where
  "spec_Enricher h machineImages disabled providerLandscape providerGlobal =
     map (\<lambda>image.
            \<lparr>MachineImage.Name = MachineImage.Name image,
             Versions = spec_kept_versions h (MachineImage.Name image) providerLandscape
                          providerGlobal (Versions image)\<rparr>)
       (filter (\<lambda>image.
            MachineImage.Name image \<notin> set disabled
            \<and> spec_kept_versions h (MachineImage.Name image) providerLandscape providerGlobal
                  (Versions image) \<noteq> [])
          machineImages)"

text \<open>
  A store \<open>h'\<close> extends a store \<open>h\<close> when every map has in \<open>h'\<close> the version identifier
  it has in \<open>h\<close> and at least the keys it has in \<open>h\<close>.
\<close>

definition heap_extends :: "'a heap \<Rightarrow> 'a heap \<Rightarrow> bool" where
  "heap_extends h h' =
     (\<forall>m. getVersion h' m = getVersion h m
          \<and> fmdom (entries h m) |\<subseteq>| fmdom (entries h' m))"

section \<open>Example catalogs\<close>

text \<open>
  Concrete catalogs on which the theorems below are instantiated.  Every version record
  is a map object of its own.  The landscape catalog and the LSS catalog each have a
  GardenLinux entry, with equal entries in two map objects; the Ubuntu version 22.04 has
  no config record; the GardenLinux config record is in the provider-landscape catalog,
  the others in the provider-global catalog.
\<close>

definition example_heap :: "unit heap" where
  "example_heap =
     (\<lambda>a. fmempty)
       (10 := fmupd ''version'' (VString ''20.04'')
               (fmupd ''arch'' (VString ''x86'') (fmupd ''owner'' (VString ''team'') fmempty)),
        11 := fmupd ''version'' (VString ''22.04'') fmempty,
        12 := fmupd ''version'' (VString ''1.0'') fmempty,
        13 := fmupd ''version'' (VString ''3.0'') fmempty,
        14 := fmupd ''version'' (VString ''1.0'') fmempty,
        15 := fmupd ''version'' (VString ''20.04'') (fmupd ''arch'' (VString ''amd64'') fmempty),
        16 := fmupd ''version'' (VString ''1.0'') (fmupd ''region'' (VString ''eu'') fmempty),
        17 := fmupd ''version'' (VString ''3.0'') (fmupd ''arch'' (VString ''arm64'') fmempty))"

definition example_landscape :: "MachineImage list" where
  "example_landscape =
     [\<lparr>MachineImage.Name = ''Ubuntu'', Versions = [MapObject 10, MapObject 11]\<rparr>,
      \<lparr>MachineImage.Name = ''GardenLinux'', Versions = [MapObject 12]\<rparr>]"

definition example_lss :: "MachineImage list" where
  "example_lss =
     [\<lparr>MachineImage.Name = ''Alpine'', Versions = [MapObject 13]\<rparr>,
      \<lparr>MachineImage.Name = ''GardenLinux'', Versions = [MapObject 14]\<rparr>]"

definition example_provider :: "MachineImage list" where
  "example_provider =
     [\<lparr>MachineImage.Name = ''Ubuntu'', Versions = [MapObject 15]\<rparr>,
      \<lparr>MachineImage.Name = ''Alpine'', Versions = [MapObject 17]\<rparr>]"

definition example_provider_landscape :: "MachineImage list" where
  "example_provider_landscape =
     [\<lparr>MachineImage.Name = ''GardenLinux'', Versions = [MapObject 16]\<rparr>]"

text \<open>
  The filter of the examples lets every entry pass, as the specification says of the
  include kind \<open>All\<close> without exclude kinds, and writes to no map object.
\<close>

definition example_filterOsImages ::
  "unit heap \<Rightarrow> OsImage list \<Rightarrow> OsImagesFilterKind list \<Rightarrow> OsImagesFilterKind list
    \<Rightarrow> (error + OsImage list) \<times> unit heap" where
  "example_filterOsImages h flatOsImages includeFilters excludeFilters = (Inr flatOsImages, h)"

text \<open>The machine images after grouping and sorting, and the output of the pipeline.\<close>

definition example_sorted :: "MachineImage list" where
  "example_sorted =
     [\<lparr>MachineImage.Name = ''GardenLinux'', Versions = [MapObject 12]\<rparr>,
      \<lparr>MachineImage.Name = ''Alpine'', Versions = [MapObject 13]\<rparr>,
      \<lparr>MachineImage.Name = ''Ubuntu'', Versions = [MapObject 10, MapObject 11]\<rparr>]"

definition example_output :: "MachineImage list" where
  "example_output =
     [\<lparr>MachineImage.Name = ''GardenLinux'', Versions = [MapObject 12]\<rparr>,
      \<lparr>MachineImage.Name = ''Alpine'', Versions = [MapObject 13]\<rparr>,
      \<lparr>MachineImage.Name = ''Ubuntu'', Versions = [MapObject 10]\<rparr>]"

text \<open>
  Catalogs in which the images A and B share one map object as their version, with
  different config records.
\<close>

definition shared_heap :: "unit heap" where
  "shared_heap =
     (\<lambda>a. fmempty)
       (10 := fmupd ''version'' (VString ''1'') (fmupd ''z'' (VString ''orig'') fmempty),
        11 := fmupd ''version'' (VString ''1'') (fmupd ''x'' (VString ''a'') fmempty),
        12 := fmupd ''version'' (VString ''1'')
               (fmupd ''x'' (VString ''other'') (fmupd ''z'' (VString ''new'') fmempty)))"

definition shared_images :: "MachineImage list" where
  "shared_images =
     [\<lparr>MachineImage.Name = ''A'', Versions = [MapObject 10]\<rparr>,
      \<lparr>MachineImage.Name = ''B'', Versions = [MapObject 10]\<rparr>]"

definition shared_provider :: "MachineImage list" where
  "shared_provider =
     [\<lparr>MachineImage.Name = ''A'', Versions = [MapObject 11]\<rparr>,
      \<lparr>MachineImage.Name = ''B'', Versions = [MapObject 12]\<rparr>]"

text \<open>
  Flat entries that tell the cases of deep equality apart: a nil map, an empty map, a map
  object listed twice, and a second map object with the same entries, one of them a NaN.
\<close>

definition nan_heap :: "unit heap" where
  "nan_heap =
     (\<lambda>a. fmempty)
       (11 := fmupd ''load'' VNaN fmempty,
        12 := fmupd ''load'' VNaN fmempty)"

definition nan_images :: "OsImage list" where
  "nan_images =
     [\<lparr>OsImage.Name = ''Ubuntu'', Version = NilMap\<rparr>,
      \<lparr>OsImage.Name = ''Ubuntu'', Version = MapObject 10\<rparr>,
      \<lparr>OsImage.Name = ''Ubuntu'', Version = MapObject 11\<rparr>,
      \<lparr>OsImage.Name = ''Ubuntu'', Version = MapObject 11\<rparr>,
      \<lparr>OsImage.Name = ''Ubuntu'', Version = MapObject 12\<rparr>,
      \<lparr>OsImage.Name = ''Ubuntu'', Version = NilMap\<rparr>]"

section \<open>Filter validation\<close>

lemma validateFilters_exclude_Some:
  "include \<in> set excludeFilters \<Longrightarrow>
   validateFilters_exclude include excludeFilters = Some ConflictingFilters"
  by (induction excludeFilters) auto

lemma validateFilters_exclude_None:
  "include \<notin> set excludeFilters \<Longrightarrow> validateFilters_exclude include excludeFilters = None"
  by (induction excludeFilters) auto

lemma validateFilters_conflict:
  "set includeFilters \<inter> set excludeFilters \<noteq> {} \<Longrightarrow>
   validateFilters includeFilters excludeFilters = Some ConflictingFilters"
proof (induction includeFilters)
  case Nil
  then show ?case by simp
next
  case (Cons inc includeFilters)
  show ?case
  proof (cases "inc \<in> set excludeFilters")
    case True
    then show ?thesis by (simp add: validateFilters_exclude_Some)
  next
    case False
    with Cons.prems have "set includeFilters \<inter> set excludeFilters \<noteq> {}" by auto
    with Cons.IH False show ?thesis by (simp add: validateFilters_exclude_None)
  qed
qed

lemma validateFilters_disjoint:
  "set includeFilters \<inter> set excludeFilters = {} \<Longrightarrow>
   validateFilters includeFilters excludeFilters = None"
  by (induction includeFilters) (auto simp: validateFilters_exclude_None)

text \<open>
  Claim C1.  Whatever the other inputs are, when the include-filter list and the
  exclude-filter list share a kind, \<open>ComputeMachineImages\<close> ends with the
  \<open>ConflictingFilters\<close> error; the result is the error alone, with no list of machine
  images, and no map object has been written to.
\<close>

theorem ComputeMachineImages_conflicting_filters:
  assumes "set includeFilters \<inter> set excludeFilters \<noteq> {}"
  shows "ComputeMachineImages filterOsImages rangeOrder h lssOsImages landscapeOsImages
           providerOsImages providerLandscapeOsImages disableMachineImages
           includeFilters excludeFilters = (Inl ConflictingFilters, h)"
proof -
  from assms have "includeFilters \<noteq> []" by auto
  with assms show ?thesis
    by (simp add: ComputeMachineImages_def validateFilters_conflict)
qed

theorem ComputeMachineImages_conflicting_filters_witness:
  "set [OsImagesFilterKindNamed ''a'', OsImagesFilterKindNamed ''b'']
     \<inter> set [OsImagesFilterKindNamed ''b''] \<noteq> {}
   \<and> fst (ComputeMachineImages (\<lambda>h images inc exc. (Inr images, h)) (\<lambda>m. m)
       ((\<lambda>a. fmempty)(0 := fmupd ''version'' (VString ''20.04'' :: unit val) fmempty))
       [] [\<lparr>MachineImage.Name = ''Ubuntu'', Versions = [MapObject 0]\<rparr>]
       [] [] []
       [OsImagesFilterKindNamed ''a'', OsImagesFilterKindNamed ''b'']
       [OsImagesFilterKindNamed ''b'']) = Inl ConflictingFilters"
  using ComputeMachineImages_conflicting_filters
    [of "[OsImagesFilterKindNamed ''a'', OsImagesFilterKindNamed ''b'']"
        "[OsImagesFilterKindNamed ''b'']"
        "\<lambda>h images inc exc. (Inr images, h)" "\<lambda>m. m"
        "(\<lambda>a. fmempty)(0 := fmupd ''version'' (VString ''20.04'' :: unit val) fmempty)"
        "[]" "[\<lparr>MachineImage.Name = ''Ubuntu'', Versions = [MapObject 0]\<rparr>]"
        "[]" "[]" "[]"]
  by simp

text \<open>
  Claim C10.  An empty include-filter list is replaced by the list holding the kind
  \<open>All\<close> before the filters are validated: the call behaves as the call with \<open>[All]\<close>,
  and so it ends with the \<open>ConflictingFilters\<close> error when the exclude-filter list
  contains \<open>All\<close>, although the empty list shares no kind with it.
\<close>

theorem ComputeMachineImages_empty_include_is_All:
  "ComputeMachineImages filterOsImages rangeOrder h lssOsImages landscapeOsImages
           providerOsImages providerLandscapeOsImages disableMachineImages
           [] excludeFilters
     = ComputeMachineImages filterOsImages rangeOrder h lssOsImages landscapeOsImages
           providerOsImages providerLandscapeOsImages disableMachineImages
           [OsImagesFilterKindAll] excludeFilters
   \<and> (OsImagesFilterKindAll \<in> set excludeFilters \<longrightarrow>
        set ([] :: OsImagesFilterKind list) \<inter> set excludeFilters = {}
        \<and> ComputeMachineImages filterOsImages rangeOrder h lssOsImages landscapeOsImages
           providerOsImages providerLandscapeOsImages disableMachineImages
           [] excludeFilters = (Inl ConflictingFilters, h))"
proof -
  have "OsImagesFilterKindAll \<in> set excludeFilters \<Longrightarrow>
        validateFilters [OsImagesFilterKindAll] excludeFilters = Some ConflictingFilters"
    by (rule validateFilters_conflict) simp
  then show ?thesis
    by (auto simp: ComputeMachineImages_def)
qed

theorem ComputeMachineImages_empty_include_is_All_witness:
  "OsImagesFilterKindAll \<in> set [OsImagesFilterKindNamed ''b'', OsImagesFilterKindAll]
   \<and> fst (ComputeMachineImages (\<lambda>h images inc exc. (Inr images, h)) (\<lambda>m. m)
       ((\<lambda>a. fmempty)(0 := fmupd ''version'' (VString ''20.04'' :: unit val) fmempty))
       [] [\<lparr>MachineImage.Name = ''Ubuntu'', Versions = [MapObject 0]\<rparr>]
       [] [] [] [] [OsImagesFilterKindNamed ''b'', OsImagesFilterKindAll])
     = Inl ConflictingFilters"
proof -
  have kind: "OsImagesFilterKindAll \<in> set [OsImagesFilterKindNamed ''b'', OsImagesFilterKindAll]"
    by simp
  from ComputeMachineImages_empty_include_is_All
    [of "\<lambda>h images inc exc. (Inr images, h)" "\<lambda>m. m"
        "(\<lambda>a. fmempty)(0 := fmupd ''version'' (VString ''20.04'' :: unit val) fmempty)"
        "[]" "[\<lparr>MachineImage.Name = ''Ubuntu'', Versions = [MapObject 0]\<rparr>]"
        "[]" "[]" "[]" "[OsImagesFilterKindNamed ''b'', OsImagesFilterKindAll]"] kind
  have "ComputeMachineImages (\<lambda>h images inc exc. (Inr images, h)) (\<lambda>m. m)
       ((\<lambda>a. fmempty)(0 := fmupd ''version'' (VString ''20.04'' :: unit val) fmempty))
       [] [\<lparr>MachineImage.Name = ''Ubuntu'', Versions = [MapObject 0]\<rparr>]
       [] [] [] [] [OsImagesFilterKindNamed ''b'', OsImagesFilterKindAll]
     = (Inl ConflictingFilters,
        (\<lambda>a. fmempty)(0 := fmupd ''version'' (VString ''20.04'' :: unit val) fmempty))"
    by blast
  then show ?thesis using kind by simp
qed

section \<open>Deep equality\<close>

lemma DeepEqual_value_sym: "DeepEqual_value v1 v2 \<Longrightarrow> DeepEqual_value v2 v1"
  by (cases v1; cases v2) auto

lemma DeepEqual_value_trans:
  "DeepEqual_value v1 v2 \<Longrightarrow> DeepEqual_value v2 v3 \<Longrightarrow> DeepEqual_value v1 v3"
  by (cases v1; cases v2; cases v3) auto

lemma fmpred_related_keys:
  "fmpred (\<lambda>k v1. case fmlookup n k of None \<Rightarrow> False | Some v2 \<Rightarrow> R v1 v2) m
     \<longleftrightarrow> (\<forall>k v1. fmlookup m k = Some v1 \<longrightarrow> (\<exists>v2. fmlookup n k = Some v2 \<and> R v1 v2))"
  unfolding fmpred_iff
  by (rule iff_allI, rule iff_allI) (auto split: option.splits)

lemma DeepEqual_map_objects:
  "DeepEqual_map h (MapObject a1) (MapObject a2)
     \<longleftrightarrow> a1 = a2 \<or> fmrel DeepEqual_value (h a1) (h a2)"
proof (cases "a1 = a2")
  case True
  then show ?thesis by (simp add: DeepEqual_map_def)
next
  case False
  have "fmrel DeepEqual_value (h a1) (h a2)"
    if card: "fcard (fmdom (h a1)) = fcard (fmdom (h a2))"
      and keys: "fmpred (\<lambda>k v1. case fmlookup (h a2) k of
                                 None \<Rightarrow> False
                               | Some v2 \<Rightarrow> DeepEqual_value v1 v2) (h a1)"
  proof -
    note keys' = keys [unfolded fmpred_related_keys, rule_format]
    have sub: "fmdom (h a1) |\<subseteq>| fmdom (h a2)"
    proof
      fix k assume "k |\<in>| fmdom (h a1)"
      then obtain v1 where "fmlookup (h a1) k = Some v1"
        by (auto simp: fmlookup_dom_iff)
      from keys' [OF this] show "k |\<in>| fmdom (h a2)"
        by (auto simp: fmlookup_dom_iff)
    qed
    with card have dom: "fmdom (h a1) = fmdom (h a2)"
      by (simp add: fcard_seteq)
    show ?thesis
      unfolding fmrel_iff
    proof
      fix x
      show "rel_option DeepEqual_value (fmlookup (h a1) x) (fmlookup (h a2) x)"
      proof (cases "fmlookup (h a1) x")
        case None
        then have "x |\<notin>| fmdom (h a2)" using dom by (metis fmdom_notI)
        then have "fmlookup (h a2) x = None" by (simp add: fmdom_notD)
        with None show ?thesis by simp
      next
        case (Some v1)
        from keys' [OF Some] Some show ?thesis
          by auto
      qed
    qed
  qed
  moreover have "fcard (fmdom (h a1)) = fcard (fmdom (h a2))
      \<and> fmpred (\<lambda>k v1. case fmlookup (h a2) k of
                                 None \<Rightarrow> False
                               | Some v2 \<Rightarrow> DeepEqual_value v1 v2) (h a1)"
    if rel: "fmrel DeepEqual_value (h a1) (h a2)"
  proof -
    from rel have "fmdom (h a1) = fmdom (h a2)"
      by (rule fmrel_fmdom_eq)
    moreover have "fmpred (\<lambda>k v1. case fmlookup (h a2) k of
                                 None \<Rightarrow> False
                               | Some v2 \<Rightarrow> DeepEqual_value v1 v2) (h a1)"
      unfolding fmpred_related_keys
    proof (intro allI impI)
      fix k v1
      assume "fmlookup (h a1) k = Some v1"
      with rel [unfolded fmrel_iff, rule_format, of k]
      show "\<exists>v2. fmlookup (h a2) k = Some v2 \<and> DeepEqual_value v1 v2"
        by (auto elim: option.rel_cases)
    qed
    ultimately show ?thesis by simp
  qed
  ultimately show ?thesis
    using False by (auto simp: DeepEqual_map_def)
qed

lemma fmrel_DeepEqual_value_sym:
  "fmrel DeepEqual_value m n \<Longrightarrow> fmrel DeepEqual_value n m"
  unfolding fmrel_iff
  by (metis DeepEqual_value_sym option.rel_sel option.rel_cases option.simps(3))


lemma fmrel_DeepEqual_value_trans:
  "fmrel DeepEqual_value m n \<Longrightarrow> fmrel DeepEqual_value n p \<Longrightarrow> fmrel DeepEqual_value m p"
  unfolding fmrel_iff
proof
  fix x
  assume mn: "\<forall>x. rel_option DeepEqual_value (fmlookup m x) (fmlookup n x)"
    and np: "\<forall>x. rel_option DeepEqual_value (fmlookup n x) (fmlookup p x)"
  from mn np have "rel_option DeepEqual_value (fmlookup m x) (fmlookup n x)"
    and "rel_option DeepEqual_value (fmlookup n x) (fmlookup p x)"
    by simp_all
  then show "rel_option DeepEqual_value (fmlookup m x) (fmlookup p x)"
    by (cases "fmlookup m x"; cases "fmlookup n x"; cases "fmlookup p x")
       (auto intro: DeepEqual_value_trans)
qed

lemma DeepEqual_map_sym: "DeepEqual_map h m1 m2 \<Longrightarrow> DeepEqual_map h m2 m1"
proof (cases m1; cases m2)
  fix a1 a2
  assume "m1 = MapObject a1" "m2 = MapObject a2" "DeepEqual_map h m1 m2"
  then show ?thesis
    by (auto simp: DeepEqual_map_objects intro: fmrel_DeepEqual_value_sym)
qed (simp_all add: DeepEqual_map_def)

lemma DeepEqual_map_trans:
  "DeepEqual_map h m1 m2 \<Longrightarrow> DeepEqual_map h m2 m3 \<Longrightarrow> DeepEqual_map h m1 m3"
proof (cases m1; cases m2; cases m3)
  fix a1 a2 a3
  assume "m1 = MapObject a1" "m2 = MapObject a2" "m3 = MapObject a3"
    "DeepEqual_map h m1 m2" "DeepEqual_map h m2 m3"
  then show ?thesis
    by (auto simp: DeepEqual_map_objects intro: fmrel_DeepEqual_value_trans)
qed (simp_all add: DeepEqual_map_def)

lemma DeepEqual_sym: "DeepEqual h x y \<Longrightarrow> DeepEqual h y x"
  by (auto simp: DeepEqual_def intro: DeepEqual_map_sym)

lemma DeepEqual_trans: "DeepEqual h x y \<Longrightarrow> DeepEqual h y z \<Longrightarrow> DeepEqual h x z"
  by (auto simp: DeepEqual_def intro: DeepEqual_map_trans)

section \<open>Deduplication\<close>

lemma removeDuplicates_found_iff:
  "removeDuplicates_found h nextImage result \<longleftrightarrow> (\<exists>y \<in> set result. DeepEqual h nextImage y)"
  by (induction result) auto

lemma removeDuplicates_loop_snoc:
  "removeDuplicates_loop h result (images @ [x]) =
     (if \<exists>y \<in> set (removeDuplicates_loop h result images). DeepEqual h x y
      then removeDuplicates_loop h result images
      else removeDuplicates_loop h result images @ [x])"
  by (induction images arbitrary: result) (simp_all add: removeDuplicates_found_iff)

lemma removeDuplicates_snoc:
  "removeDuplicates h (images @ [x]) =
     (if \<exists>y \<in> set (removeDuplicates h images). DeepEqual h x y
      then removeDuplicates h images
      else removeDuplicates h images @ [x])"
  by (simp add: removeDuplicates_def removeDuplicates_loop_snoc)

text \<open>No entry of the result is deeply equal to an earlier entry of the result.\<close>

lemma removeDuplicates_loop_fresh:
  "sorted_wrt (\<lambda>x y. \<not> DeepEqual h y x) result \<Longrightarrow>
   sorted_wrt (\<lambda>x y. \<not> DeepEqual h y x) (removeDuplicates_loop h result images)"
  by (induction images arbitrary: result)
     (auto simp: removeDuplicates_found_iff sorted_wrt_append)

lemma removeDuplicates_fresh:
  "sorted_wrt (\<lambda>x y. \<not> DeepEqual h y x) (removeDuplicates h images)"
  by (simp add: removeDuplicates_def removeDuplicates_loop_fresh)

lemma removeDuplicates_loop_fresh_id:
  "sorted_wrt (\<lambda>x y. \<not> DeepEqual h y x) (result @ images) \<Longrightarrow>
   removeDuplicates_loop h result images = result @ images"
proof (induction images arbitrary: result)
  case Nil
  then show ?case by simp
next
  case (Cons x images)
  from Cons.prems have "\<not> (\<exists>y \<in> set result. DeepEqual h x y)"
    by (auto simp: sorted_wrt_append)
  moreover from Cons.prems have "sorted_wrt (\<lambda>x y. \<not> DeepEqual h y x) ((result @ [x]) @ images)"
    by simp
  ultimately show ?case
    using Cons.IH [of "result @ [x]"] by (simp add: removeDuplicates_found_iff)
qed

lemma set_removeDuplicates_subset: "set (removeDuplicates h images) \<subseteq> set images"
proof (induction images rule: rev_induct)
  case Nil
  then show ?case by (simp add: removeDuplicates_def)
next
  case (snoc x xs)
  then show ?case
    unfolding removeDuplicates_snoc by (auto split: if_splits)
qed

lemma removeDuplicates_covers:
  "y \<in> set images \<Longrightarrow> DeepEqual h x y \<Longrightarrow>
   \<exists>z \<in> set (removeDuplicates h images). DeepEqual h x z"
proof (induction images rule: rev_induct)
  case Nil
  then show ?case by simp
next
  case (snoc w images)
  show ?case
  proof (cases "y \<in> set images")
    case True
    with snoc obtain z where "z \<in> set (removeDuplicates h images)" "DeepEqual h x z"
      by blast
    then show ?thesis by (auto simp: removeDuplicates_snoc)
  next
    case False
    with snoc.prems have y: "y = w" by simp
    show ?thesis
    proof (cases "\<exists>z \<in> set (removeDuplicates h images). DeepEqual h w z")
      case True
      then obtain z where "z \<in> set (removeDuplicates h images)" "DeepEqual h w z"
        by blast
      with snoc.prems(2) y have "z \<in> set (removeDuplicates h (images @ [w]))" "DeepEqual h x z"
        by (auto simp: removeDuplicates_snoc intro: DeepEqual_trans)
      then show ?thesis by blast
    next
      case False
      with snoc.prems(2) y show ?thesis
        by (auto simp: removeDuplicates_snoc)
    qed
  qed
qed

lemma removeDuplicates_snoc_first:
  "removeDuplicates h (images @ [x]) =
     removeDuplicates h images @ (if \<exists>y \<in> set images. DeepEqual h x y then [] else [x])"
proof -
  have "(\<exists>y \<in> set (removeDuplicates h images). DeepEqual h x y)
          \<longleftrightarrow> (\<exists>y \<in> set images. DeepEqual h x y)"
    using set_removeDuplicates_subset removeDuplicates_covers by blast
  then show ?thesis by (simp add: removeDuplicates_snoc)
qed

lemma first_occurrences_snoc:
  "map (\<lambda>i. (xs @ [x]) ! i)
     (filter (\<lambda>i. \<forall>k<i. \<not> DeepEqual h ((xs @ [x]) ! k) ((xs @ [x]) ! i))
        [0..<length (xs @ [x])])
   = map (\<lambda>i. xs ! i) (filter (\<lambda>i. \<forall>k<i. \<not> DeepEqual h (xs ! k) (xs ! i)) [0..<length xs])
     @ (if \<exists>y \<in> set xs. DeepEqual h x y then [] else [x])"
proof -
  have a: "filter (\<lambda>i. \<forall>k<i. \<not> DeepEqual h ((xs @ [x]) ! k) ((xs @ [x]) ! i)) [0..<length xs]
         = filter (\<lambda>i. \<forall>k<i. \<not> DeepEqual h (xs ! k) (xs ! i)) [0..<length xs]"
    by (rule filter_cong) (auto simp: nth_append)
  have b: "map (\<lambda>i. (xs @ [x]) ! i)
             (filter (\<lambda>i. \<forall>k<i. \<not> DeepEqual h (xs ! k) (xs ! i)) [0..<length xs])
         = map (\<lambda>i. xs ! i) (filter (\<lambda>i. \<forall>k<i. \<not> DeepEqual h (xs ! k) (xs ! i)) [0..<length xs])"
    by (rule map_cong) (auto simp: nth_append)
  have "(\<exists>y \<in> set xs. DeepEqual h x y) \<longleftrightarrow> (\<exists>k<length xs. DeepEqual h (xs ! k) x)"
  proof
    assume "\<exists>y \<in> set xs. DeepEqual h x y"
    then obtain y where "y \<in> set xs" "DeepEqual h x y" by blast
    then obtain k where "k < length xs" "xs ! k = y" "DeepEqual h y x"
      by (auto simp: in_set_conv_nth dest: DeepEqual_sym)
    then show "\<exists>k<length xs. DeepEqual h (xs ! k) x" by blast
  next
    assume "\<exists>k<length xs. DeepEqual h (xs ! k) x"
    then obtain k where "k < length xs" "DeepEqual h x (xs ! k)"
      by (auto dest: DeepEqual_sym)
    then show "\<exists>y \<in> set xs. DeepEqual h x y"
      using nth_mem by blast
  qed
  then have c: "(\<forall>k<length xs. \<not> DeepEqual h ((xs @ [x]) ! k) x) \<longleftrightarrow> \<not> (\<exists>y \<in> set xs. DeepEqual h x y)"
    by (simp add: nth_append)
  show ?thesis using a b c by simp
qed

text \<open>
  Claim C7.  No two entries of the output of \<open>removeDuplicates\<close> are deeply equal, and
  the output is the input with exactly those positions kept whose entry is not deeply
  equal to an entry at an earlier position: the first occurrence of each entry, in the
  original relative order.
\<close>

theorem removeDuplicates_keeps_first_occurrences:
  "(\<forall>i j. i < j \<and> j < length (removeDuplicates h images) \<longrightarrow>
       \<not> DeepEqual h (removeDuplicates h images ! i) (removeDuplicates h images ! j)
     \<and> \<not> DeepEqual h (removeDuplicates h images ! j) (removeDuplicates h images ! i))
   \<and> removeDuplicates h images =
       map (\<lambda>i. images ! i)
         (filter (\<lambda>i. \<forall>k<i. \<not> DeepEqual h (images ! k) (images ! i)) [0..<length images])"
proof -
  have "removeDuplicates h images =
       map (\<lambda>i. images ! i)
         (filter (\<lambda>i. \<forall>k<i. \<not> DeepEqual h (images ! k) (images ! i)) [0..<length images])"
  proof (induction images rule: rev_induct)
    case Nil
    then show ?case by (simp add: removeDuplicates_def)
  next
    case (snoc x xs)
    then show ?case
      by (simp only: first_occurrences_snoc removeDuplicates_snoc_first)
  qed
  moreover have "\<not> DeepEqual h (removeDuplicates h images ! j) (removeDuplicates h images ! i)"
    if "i < j" "j < length (removeDuplicates h images)" for i j
    using removeDuplicates_fresh [of h images] that
    by (simp add: sorted_wrt_iff_nth_less)
  ultimately show ?thesis
    using DeepEqual_sym by blast
qed

text \<open>
  Claim C8.  Running \<open>removeDuplicates\<close> on its own output gives that output again.
\<close>

theorem removeDuplicates_idempotent:
  "removeDuplicates h (removeDuplicates h images) = removeDuplicates h images"
  using removeDuplicates_loop_fresh_id [of h "[]" "removeDuplicates h images"]
  by (simp add: removeDuplicates_def removeDuplicates_loop_fresh)

section \<open>The merge of a config record\<close>

text \<open>
  Storing the entries of a config record one by one into the map object of a version, in
  any order that lists each key once, leaves that object with its entries overridden by
  those of the config record, and every other object as it was.
\<close>

lemma fmlookup_fmadd_case:
  "fmlookup (m ++\<^sub>f n) x = (case fmlookup n x of None \<Rightarrow> fmlookup m x | Some y \<Rightarrow> Some y)"
  by (auto simp: fmlookup_dom_iff split: option.splits)

lemma fmupd_fmadd_of_list:
  assumes "k \<notin> fst ` set es"
  shows "fmupd k v m ++\<^sub>f fmap_of_list es = m ++\<^sub>f fmap_of_list ((k, v) # es)"
proof (rule fmap_ext)
  fix x
  from assms have "map_of es k = None"
    by (simp add: map_of_eq_None_iff)
  then show "fmlookup (fmupd k v m ++\<^sub>f fmap_of_list es) x
      = fmlookup (m ++\<^sub>f fmap_of_list ((k, v) # es)) x"
    by (simp add: fmlookup_fmadd_case fmlookup_of_list del: fmlookup_add fmap_of_list_simps
             split: option.splits)
qed

lemma mergeConfig_loop_distinct:
  "distinct (map fst es) \<Longrightarrow>
   mergeConfig_loop h (MapObject a) es = (None, h(a := h a ++\<^sub>f fmap_of_list es))"
proof (induction es arbitrary: h)
  case Nil
  then show ?case by simp
next
  case (Cons e es)
  obtain k v where e: "e = (k, v)" by (cases e)
  from Cons.prems e have k: "k \<notin> fst ` set es" and d: "distinct (map fst es)" by auto
  have "mergeConfig_loop h (MapObject a) (e # es)
          = mergeConfig_loop (h(a := fmupd k v (h a))) (MapObject a) es"
    by (simp add: e mapassign_def)
  also have "\<dots> = (None, (h(a := fmupd k v (h a)))
                        (a := (h(a := fmupd k v (h a))) a ++\<^sub>f fmap_of_list es))"
    by (rule Cons.IH [OF d])
  also have "\<dots> = (None, h(a := h a ++\<^sub>f fmap_of_list (e # es)))"
    using fmupd_fmadd_of_list [OF k] by (simp add: e del: fmap_of_list_simps)
  finally show ?case .
qed

lemma mergeConfig_any_order:
  assumes "distinct (map fst es)" and "map_of es = fmlookup config"
  shows "mergeConfig_loop h (MapObject a) es = (None, h(a := h a ++\<^sub>f config))"
proof -
  have "fmap_of_list es = config"
    using assms(2) by (intro fmap_ext) (simp add: fmlookup_of_list)
  with mergeConfig_loop_distinct [OF assms(1)] show ?thesis by simp
qed

lemma distinct_sorted_list_of_fmap: "distinct (map fst (sorted_list_of_fmap m))"
proof -
  have "map fst (sorted_list_of_fmap m) = sorted_list_of_fset (fmdom m)"
    by (simp add: sorted_list_of_fmap_def comp_def)
  moreover have "distinct (sorted_list_of_fset (fmdom m))"
    by (simp add: sorted_list_of_fset.rep_eq)
  ultimately show ?thesis by simp
qed

lemma mergeConfig_object:
  "mergeConfig h config (MapObject a) = (None, h(a := h a ++\<^sub>f entries h config))"
  unfolding mergeConfig_def
  by (rule mergeConfig_any_order) (simp_all add: distinct_sorted_list_of_fmap)

lemma getVersion_not_NilMap: "getVersion h NilMap = None"
  by (simp add: getVersion_def entries_def)

lemma mergeConfig_getVersion:
  assumes "getVersion h nextVersion = Some versionNumber"
  obtains a where "nextVersion = MapObject a"
    and "mergeConfig h config nextVersion = (None, h(a := h a ++\<^sub>f entries h config))"
proof (cases nextVersion)
  case NilMap
  with assms show ?thesis by (simp add: getVersion_not_NilMap)
next
  case (MapObject a)
  then show ?thesis using that by (simp add: mergeConfig_object)
qed

section \<open>The lookup of a config record\<close>

lemma getVersionConfigInternal_versions_find:
  "getVersionConfigInternal_versions h versionNumber versions
     = List.find (\<lambda>config. getVersion h config = Some versionNumber) versions"
  by (induction versions) (auto split: option.splits)

lemma find_append:
  "List.find P (xs @ ys) = (case List.find P xs of Some x \<Rightarrow> Some x | None \<Rightarrow> List.find P ys)"
  by (induction xs) auto

lemma getVersionConfigInternal_spec:
  "getVersionConfigInternal h imageName versionNumber images
     = spec_catalog_match h imageName versionNumber images"
  by (induction images)
     (auto simp: spec_catalog_match_def getVersionConfigInternal_versions_find find_append
           split: option.splits)

lemma getVersionConfig_spec:
  "getVersion h version = Some versionNumber \<Longrightarrow>
   getVersionConfig h imageName versionNumber providerLandscapeOsImages providerOsImages
     = spec_lookup h imageName providerLandscapeOsImages providerOsImages version"
  by (auto simp: getVersionConfig_def spec_lookup_def getVersionConfigInternal_spec Let_def
           split: option.splits)

lemma spec_catalog_match_Some:
  assumes "spec_catalog_match h imageName versionNumber catalog = Some config"
  shows "\<exists>img \<in> set catalog. MachineImage.Name img = imageName
           \<and> config \<in> set (Versions img) \<and> getVersion h config = Some versionNumber"
proof -
  from assms obtain i where
    i: "i < length (concat (map Versions (filter (\<lambda>img. MachineImage.Name img = imageName) catalog)))"
       "getVersion h config = Some versionNumber"
       "config = concat (map Versions (filter (\<lambda>img. MachineImage.Name img = imageName) catalog)) ! i"
    unfolding spec_catalog_match_def find_Some_iff by blast
  then have "config \<in> set (concat (map Versions (filter (\<lambda>img. MachineImage.Name img = imageName) catalog)))"
    by (metis nth_mem)
  with i(2) show ?thesis by auto
qed

lemma spec_catalog_match_None:
  "spec_catalog_match h imageName versionNumber catalog = None \<longleftrightarrow>
   \<not> (\<exists>img \<in> set catalog. MachineImage.Name img = imageName
         \<and> (\<exists>config \<in> set (Versions img). getVersion h config = Some versionNumber))"
  unfolding spec_catalog_match_def find_None_iff by auto

text \<open>
  Claim C4.  When the provider-landscape catalog holds a record for the image name and
  the version identifier, \<open>getVersionConfig\<close> returns the record found there,
  whatever the provider-global catalog holds; the result of the provider-global catalog
  is returned only when the provider-landscape catalog has no such record.
\<close>

theorem getVersionConfig_landscape_first:
  "((\<exists>img \<in> set providerLandscapeOsImages. MachineImage.Name img = imageName
        \<and> (\<exists>config \<in> set (Versions img). getVersion h config = Some versionNumber)) \<longrightarrow>
      getVersionConfig h imageName versionNumber providerLandscapeOsImages providerOsImages
        = getVersionConfigInternal h imageName versionNumber providerLandscapeOsImages
      \<and> (\<exists>img \<in> set providerLandscapeOsImages. MachineImage.Name img = imageName
            \<and> (\<exists>config \<in> set (Versions img). getVersion h config = Some versionNumber
                  \<and> getVersionConfig h imageName versionNumber providerLandscapeOsImages
                        providerOsImages = Some config)))
   \<and> (\<not> (\<exists>img \<in> set providerLandscapeOsImages. MachineImage.Name img = imageName
        \<and> (\<exists>config \<in> set (Versions img). getVersion h config = Some versionNumber)) \<longrightarrow>
      getVersionConfig h imageName versionNumber providerLandscapeOsImages providerOsImages
        = getVersionConfigInternal h imageName versionNumber providerOsImages)"
proof (cases "spec_catalog_match h imageName versionNumber providerLandscapeOsImages")
  case None
  then have "getVersionConfig h imageName versionNumber providerLandscapeOsImages providerOsImages
        = getVersionConfigInternal h imageName versionNumber providerOsImages"
    by (simp add: getVersionConfig_def getVersionConfigInternal_spec)
  with None show ?thesis
    unfolding spec_catalog_match_None by blast
next
  case (Some config)
  then have "getVersionConfig h imageName versionNumber providerLandscapeOsImages providerOsImages
        = Some config"
    and "getVersionConfigInternal h imageName versionNumber providerLandscapeOsImages = Some config"
    by (simp_all add: getVersionConfig_def getVersionConfigInternal_spec)
  with spec_catalog_match_Some [OF Some] show ?thesis
    by auto
qed

section \<open>The enrichment loop\<close>

text \<open>
  A merge leaves every map with its version identifier, since the config record was
  found under the identifier of the version, and removes no key.  So every lookup of the
  stage finds what it would find in the store at the start, and the loops end in the
  panic exactly when an image that is not disabled has a version without a version
  identifier; otherwise they keep what the specification describes.
\<close>

lemma contains_iff: "contains s str \<longleftrightarrow> str \<in> set s"
  by (induction s) auto

lemma heap_extends_refl: "heap_extends h h"
  by (simp add: heap_extends_def)

lemma heap_extends_trans: "heap_extends h1 h2 \<Longrightarrow> heap_extends h2 h3 \<Longrightarrow> heap_extends h1 h3"
  unfolding heap_extends_def by (metis fsubset_trans)

lemma heap_extends_getVersion: "heap_extends h h' \<Longrightarrow> getVersion h' = getVersion h"
  by (auto simp: heap_extends_def)

lemma heap_extends_spec_catalog_match:
  "heap_extends h h' \<Longrightarrow> spec_catalog_match h' = spec_catalog_match h"
  by (intro ext) (simp add: spec_catalog_match_def heap_extends_getVersion)

lemma heap_extends_spec_lookup: "heap_extends h h' \<Longrightarrow> spec_lookup h' = spec_lookup h"
  by (intro ext)
     (simp add: spec_lookup_def heap_extends_spec_catalog_match heap_extends_getVersion
           cong: option.case_cong)

lemma heap_extends_fmdom:
  "heap_extends h h' \<Longrightarrow> fmdom (entries h m) |\<subseteq>| fmdom (entries h' m)"
  by (simp add: heap_extends_def)

lemma getVersion_Some_lookup:
  "getVersion h m = Some versionNumber \<Longrightarrow>
   fmlookup (entries h m) ''version'' = Some (VString versionNumber)"
  by (auto simp: getVersion_def split: option.splits val.splits)

lemma entries_simps [simp]:
  "entries h NilMap = fmempty"
  "entries h (MapObject a) = h a"
  by (simp_all add: entries_def)

lemma entries_update:
  "entries (h(a := e)) m = (if m = MapObject a then e else entries h m)"
  by (cases m) auto

lemma heap_extends_merge:
  assumes "getVersion h (MapObject a) = Some versionNumber"
    and "getVersion h config = Some versionNumber"
  shows "heap_extends h (h(a := h a ++\<^sub>f entries h config))"
proof -
  have "getVersion (h(a := h a ++\<^sub>f entries h config)) m = getVersion h m" for m
  proof (cases "m = MapObject a")
    case True
    have "fmlookup (h a ++\<^sub>f entries h config) ''version'' = Some (VString versionNumber)"
      using getVersion_Some_lookup [OF assms(2)]
      by (simp add: fmlookup_fmadd_case del: fmlookup_add)
    with True assms(1) show ?thesis
      by (simp add: getVersion_def entries_update)
  next
    case False
    then show ?thesis by (simp add: getVersion_def entries_update)
  qed
  moreover have "fmdom (entries h m) |\<subseteq>| fmdom (entries (h(a := h a ++\<^sub>f entries h config)) m)" for m
    by (cases "m = MapObject a") (auto simp: entries_update)
  ultimately show ?thesis by (simp add: heap_extends_def)
qed

lemma spec_lookup_Some:
  assumes "spec_lookup h imageName pl pg version = Some config"
  shows "\<exists>versionNumber. getVersion h version = Some versionNumber
           \<and> getVersionConfig h imageName versionNumber pl pg = Some config
           \<and> (\<exists>catalogImage \<in> set (pl @ pg). MachineImage.Name catalogImage = imageName
                 \<and> config \<in> set (Versions catalogImage)
                 \<and> getVersion h config = Some versionNumber)"
proof -
  from assms obtain versionNumber where v: "getVersion h version = Some versionNumber"
    by (auto simp: spec_lookup_def split: option.splits)
  from assms v have c: "getVersionConfig h imageName versionNumber pl pg = Some config"
    by (simp add: getVersionConfig_spec)
  from assms v have "spec_catalog_match h imageName versionNumber pl = Some config
      \<or> spec_catalog_match h imageName versionNumber pg = Some config"
    by (auto simp: spec_lookup_def split: option.splits)
  then have "\<exists>catalogImage \<in> set (pl @ pg). MachineImage.Name catalogImage = imageName
                 \<and> config \<in> set (Versions catalogImage)
                 \<and> getVersion h config = Some versionNumber"
    using spec_catalog_match_Some by fastforce
  with v c show ?thesis by blast
qed

lemma spec_lookup_None:
  assumes "getVersion h version = Some versionNumber"
    and "\<not> (\<exists>catalogImage \<in> set (pl @ pg). MachineImage.Name catalogImage = imageName
            \<and> (\<exists>config \<in> set (Versions catalogImage). getVersion h config = Some versionNumber))"
  shows "spec_lookup h imageName pl pg version = None"
proof -
  from assms(2) have "spec_catalog_match h imageName versionNumber pl = None"
    and "spec_catalog_match h imageName versionNumber pg = None"
    unfolding spec_catalog_match_None by auto
  with assms(1) show ?thesis by (simp add: spec_lookup_def)
qed

text \<open>One step of the inner loop, for a version that has a version identifier.\<close>

lemma getFilteredMachineImages_versions_skip:
  assumes "getVersion h v = Some versionNumber" and "spec_lookup h name pl pg v = None"
  shows "getFilteredMachineImages_versions h name pl pg acc (v # vs)
           = getFilteredMachineImages_versions h name pl pg acc vs"
  using assms by (simp add: getVersionConfig_spec [OF assms(1)])

lemma getFilteredMachineImages_versions_merge:
  assumes "getVersion h v = Some versionNumber" and "spec_lookup h name pl pg v = Some config"
  obtains a where "v = MapObject a"
    and "getVersion h config = Some versionNumber"
    and "heap_extends h (h(a := h a ++\<^sub>f entries h config))"
    and "\<And>acc vs. getFilteredMachineImages_versions h name pl pg acc (v # vs)
           = getFilteredMachineImages_versions (h(a := h a ++\<^sub>f entries h config))
               name pl pg (acc @ [v]) vs"
proof -
  from mergeConfig_getVersion [OF assms(1), of config] obtain a where
    a: "v = MapObject a"
       "mergeConfig h config v = (None, h(a := h a ++\<^sub>f entries h config))"
    by blast
  from spec_lookup_Some [OF assms(2)] assms(1) have c: "getVersion h config = Some versionNumber"
    by auto
  with assms(1) a(1) have "heap_extends h (h(a := h a ++\<^sub>f entries h config))"
    by (simp add: heap_extends_merge)
  moreover have "getFilteredMachineImages_versions h name pl pg acc (v # vs)
           = getFilteredMachineImages_versions (h(a := h a ++\<^sub>f entries h config))
               name pl pg (acc @ [v]) vs" for acc vs
    using assms a(2) by (simp add: getVersionConfig_spec [OF assms(1)])
  ultimately show ?thesis using that a(1) c by blast
qed

lemma getFilteredMachineImages_versions_extends:
  "heap_extends h (snd (getFilteredMachineImages_versions h name pl pg acc vs))"
proof (induction vs arbitrary: h acc)
  case Nil
  then show ?case by (simp add: heap_extends_refl)
next
  case (Cons v vs)
  show ?case
  proof (cases "getVersion h v")
    case None
    then show ?thesis by (simp add: heap_extends_refl)
  next
    case (Some versionNumber)
    show ?thesis
    proof (cases "spec_lookup h name pl pg v")
      case None
      show ?thesis
        unfolding getFilteredMachineImages_versions_skip [OF Some None] by (rule Cons.IH)
    next
      case found: (Some config)
      from getFilteredMachineImages_versions_merge [OF Some found] obtain a where
        ext: "heap_extends h (h(a := h a ++\<^sub>f entries h config))"
        and run: "\<And>acc vs. getFilteredMachineImages_versions h name pl pg acc (v # vs)
           = getFilteredMachineImages_versions (h(a := h a ++\<^sub>f entries h config))
               name pl pg (acc @ [v]) vs"
        by blast
      show ?thesis
        unfolding run using ext Cons.IH by (rule heap_extends_trans)
    qed
  qed
qed

lemma spec_kept_versions_Cons:
  "spec_kept_versions h name pl pg (v # vs) =
     (if spec_lookup h name pl pg v \<noteq> None then v # spec_kept_versions h name pl pg vs
      else spec_kept_versions h name pl pg vs)"
  by (simp add: spec_kept_versions_def)

lemma getFilteredMachineImages_versions_result:
  assumes "heap_extends h0 h"
  shows "fst (getFilteredMachineImages_versions h name pl pg acc vs) =
     (if \<exists>v \<in> set vs. getVersion h0 v = None then Inl PanicNilDereference
      else Inr (acc @ spec_kept_versions h0 name pl pg vs))"
  using assms
proof (induction vs arbitrary: h acc)
  case Nil
  then show ?case by (simp add: spec_kept_versions_def)
next
  case (Cons v vs)
  note same = heap_extends_getVersion [OF Cons.prems] heap_extends_spec_lookup [OF Cons.prems]
  show ?case
  proof (cases "getVersion h0 v")
    case None
    then show ?thesis by (simp add: same)
  next
    case (Some versionNumber)
    then have now: "getVersion h v = Some versionNumber" by (simp add: same)
    show ?thesis
    proof (cases "spec_lookup h0 name pl pg v")
      case None
      then have "spec_lookup h name pl pg v = None" by (simp add: same)
      note run = getFilteredMachineImages_versions_skip [OF now this]
      from Some None show ?thesis
        unfolding run by (simp add: Cons.IH [OF Cons.prems] spec_kept_versions_Cons)
    next
      case found: (Some config)
      then have "spec_lookup h name pl pg v = Some config" by (simp add: same)
      from getFilteredMachineImages_versions_merge [OF now this] obtain a where
        ext: "heap_extends h (h(a := h a ++\<^sub>f entries h config))"
        and run: "\<And>acc vs. getFilteredMachineImages_versions h name pl pg acc (v # vs)
           = getFilteredMachineImages_versions (h(a := h a ++\<^sub>f entries h config))
               name pl pg (acc @ [v]) vs"
        by blast
      define h1 where "h1 = h(a := h a ++\<^sub>f entries h config)"
      from Cons.prems ext have "heap_extends h0 h1"
        unfolding h1_def by (rule heap_extends_trans)
      from Cons.IH [OF this, of "acc @ [v]"] Some found show ?thesis
        unfolding run h1_def [symmetric] by (simp add: spec_kept_versions_Cons)
    qed
  qed
qed

lemma getFilteredMachineImages_versions_keys:
  assumes "heap_extends h0 h" and "\<forall>v \<in> set vs. getVersion h0 v \<noteq> None"
    and "v \<in> set vs" and "spec_lookup h0 name pl pg v = Some config"
  shows "fmdom (entries h0 config)
           |\<subseteq>| fmdom (entries (snd (getFilteredMachineImages_versions h name pl pg acc vs)) v)"
  using assms
proof (induction vs arbitrary: h acc)
  case Nil
  then show ?case by simp
next
  case (Cons w vs)
  note same = heap_extends_getVersion [OF Cons.prems(1)]
    heap_extends_spec_lookup [OF Cons.prems(1)]
  from Cons.prems(2) obtain versionNumber where "getVersion h0 w = Some versionNumber"
    by auto
  then have now: "getVersion h w = Some versionNumber" by (simp add: same)
  from Cons.prems(2) have rest: "\<forall>v \<in> set vs. getVersion h0 v \<noteq> None" by simp
  show ?case
  proof (cases "spec_lookup h0 name pl pg w")
    case None
    with Cons.prems(3,4) have "v \<in> set vs" by auto
    from None have "spec_lookup h name pl pg w = None" by (simp add: same)
    note run = getFilteredMachineImages_versions_skip [OF now this]
    from Cons.IH [OF Cons.prems(1) rest \<open>v \<in> set vs\<close> Cons.prems(4)] show ?thesis
      unfolding run .
  next
    case found: (Some config')
    then have "spec_lookup h name pl pg w = Some config'" by (simp add: same)
    from getFilteredMachineImages_versions_merge [OF now this] obtain a where
      a: "w = MapObject a"
      and ext1: "heap_extends h (h(a := h a ++\<^sub>f entries h config'))"
      and run: "\<And>acc vs. getFilteredMachineImages_versions h name pl pg acc (w # vs)
           = getFilteredMachineImages_versions (h(a := h a ++\<^sub>f entries h config'))
               name pl pg (acc @ [w]) vs"
      by blast
    define h1 where "h1 = h(a := h a ++\<^sub>f entries h config')"
    from Cons.prems(1) ext1 have ext01: "heap_extends h0 h1"
      unfolding h1_def by (rule heap_extends_trans)
    show ?thesis
    proof (cases "v \<in> set vs")
      case True
      from Cons.IH [OF ext01 rest True Cons.prems(4), of "acc @ [w]"] show ?thesis
        unfolding run h1_def .
    next
      case False
      with Cons.prems(3) have v: "v = w" by simp
      with found Cons.prems(4) have c: "config' = config" by simp
      have "fmdom (entries h0 config) |\<subseteq>| fmdom (entries h config)"
        using Cons.prems(1) by (rule heap_extends_fmdom)
      also have "\<dots> |\<subseteq>| fmdom (entries h1 v)"
        by (auto simp: h1_def v a c)
      also have "\<dots> |\<subseteq>| fmdom (entries (snd (getFilteredMachineImages_versions h1 name pl pg
                                             (acc @ [w]) vs)) v)"
        using getFilteredMachineImages_versions_extends by (rule heap_extends_fmdom)
      finally show ?thesis unfolding run h1_def .
    qed
  qed
qed


lemma spec_Enricher_Nil [simp]: "spec_Enricher h [] dis pl pg = []"
  by (simp add: spec_Enricher_def)

lemma spec_Enricher_Cons:
  "spec_Enricher h (img # images) dis pl pg =
     (if MachineImage.Name img \<notin> set dis
         \<and> spec_kept_versions h (MachineImage.Name img) pl pg (Versions img) \<noteq> []
      then \<lparr>MachineImage.Name = MachineImage.Name img,
            Versions = spec_kept_versions h (MachineImage.Name img) pl pg (Versions img)\<rparr>
           # spec_Enricher h images dis pl pg
      else spec_Enricher h images dis pl pg)"
  by (simp add: spec_Enricher_def)

text \<open>One step of the outer loop.\<close>

lemma getFilteredMachineImages_loop_disabled:
  "MachineImage.Name img \<in> set dis \<Longrightarrow>
   getFilteredMachineImages_loop h dis pl pg acc (img # images)
     = getFilteredMachineImages_loop h dis pl pg acc images"
  by (simp add: contains_iff)

lemma getFilteredMachineImages_loop_panic:
  assumes "MachineImage.Name img \<notin> set dis"
    and "getFilteredMachineImages_versions h (MachineImage.Name img) pl pg [] (Versions img)
           = (Inl panic, h1)"
  shows "getFilteredMachineImages_loop h dis pl pg acc (img # images) = (Inl panic, h1)"
  using assms by (simp add: contains_iff)

lemma getFilteredMachineImages_loop_enriched:
  assumes "MachineImage.Name img \<notin> set dis"
    and "getFilteredMachineImages_versions h (MachineImage.Name img) pl pg [] (Versions img)
           = (Inr versionsWithConfig, h1)"
  shows "getFilteredMachineImages_loop h dis pl pg acc (img # images)
     = getFilteredMachineImages_loop h1 dis pl pg
         (if versionsWithConfig \<noteq> []
          then acc @ [\<lparr>MachineImage.Name = MachineImage.Name img,
                         Versions = versionsWithConfig\<rparr>]
          else acc) images"
  using assms by (simp add: contains_iff)

lemma getFilteredMachineImages_loop_extends:
  "heap_extends h (snd (getFilteredMachineImages_loop h dis pl pg acc images))"
proof (induction images arbitrary: h acc)
  case Nil
  then show ?case by (simp add: heap_extends_refl)
next
  case (Cons img images)
  show ?case
  proof (cases "MachineImage.Name img \<in> set dis")
    case True
    show ?thesis
      unfolding getFilteredMachineImages_loop_disabled [OF True] by (rule Cons.IH)
  next
    case False
    obtain r h1 where
      run: "getFilteredMachineImages_versions h (MachineImage.Name img) pl pg [] (Versions img)
              = (r, h1)"
      by (cases "getFilteredMachineImages_versions h (MachineImage.Name img) pl pg []
                   (Versions img)")
    have ext: "heap_extends h h1"
      using getFilteredMachineImages_versions_extends
        [of h "MachineImage.Name img" pl pg "[]" "Versions img"]
      by (simp add: run)
    show ?thesis
    proof (cases r)
      case (Inl panic)
      with run have "getFilteredMachineImages_versions h (MachineImage.Name img) pl pg []
                       (Versions img) = (Inl panic, h1)"
        by simp
      note step = getFilteredMachineImages_loop_panic [OF False this]
      show ?thesis
        unfolding step using ext by simp
    next
      case (Inr versionsWithConfig)
      with run have "getFilteredMachineImages_versions h (MachineImage.Name img) pl pg []
                       (Versions img) = (Inr versionsWithConfig, h1)"
        by simp
      note step = getFilteredMachineImages_loop_enriched [OF False this]
      show ?thesis
        unfolding step using ext Cons.IH by (rule heap_extends_trans)
    qed
  qed
qed

lemma getFilteredMachineImages_loop_result:
  assumes "heap_extends h0 h"
  shows "fst (getFilteredMachineImages_loop h dis pl pg acc images) =
     (if \<exists>img \<in> set images. MachineImage.Name img \<notin> set dis
            \<and> (\<exists>v \<in> set (Versions img). getVersion h0 v = None)
      then Inl PanicNilDereference
      else Inr (acc @ spec_Enricher h0 images dis pl pg))"
  using assms
proof (induction images arbitrary: h acc)
  case Nil
  then show ?case by simp
next
  case (Cons img images)
  show ?case
  proof (cases "MachineImage.Name img \<in> set dis")
    case True
    then show ?thesis
      unfolding getFilteredMachineImages_loop_disabled [OF True]
      by (simp add: Cons.IH [OF Cons.prems] spec_Enricher_Cons)
  next
    case False
    obtain r h1 where
      run: "getFilteredMachineImages_versions h (MachineImage.Name img) pl pg [] (Versions img)
              = (r, h1)"
      by (cases "getFilteredMachineImages_versions h (MachineImage.Name img) pl pg []
                   (Versions img)")
    have "heap_extends h h1"
      using getFilteredMachineImages_versions_extends
        [of h "MachineImage.Name img" pl pg "[]" "Versions img"]
      by (simp add: run)
    with Cons.prems have ext: "heap_extends h0 h1" by (rule heap_extends_trans)
    have r: "r = (if \<exists>v \<in> set (Versions img). getVersion h0 v = None
                 then Inl PanicNilDereference
                 else Inr (spec_kept_versions h0 (MachineImage.Name img) pl pg (Versions img)))"
      using getFilteredMachineImages_versions_result
        [OF Cons.prems, of "MachineImage.Name img" pl pg "[]" "Versions img"]
      by (simp add: run)
    show ?thesis
    proof (cases "\<exists>v \<in> set (Versions img). getVersion h0 v = None")
      case True
      with r run have "getFilteredMachineImages_versions h (MachineImage.Name img) pl pg []
                       (Versions img) = (Inl PanicNilDereference, h1)"
        by simp
      note step = getFilteredMachineImages_loop_panic [OF False this]
      from True False show ?thesis
        unfolding step by auto
    next
      case good: False
      with r run have "getFilteredMachineImages_versions h (MachineImage.Name img) pl pg []
                       (Versions img)
          = (Inr (spec_kept_versions h0 (MachineImage.Name img) pl pg (Versions img)), h1)"
        by simp
      note step = getFilteredMachineImages_loop_enriched [OF False this]
      from good False show ?thesis
        unfolding step
        by (auto simp: Cons.IH [OF ext] spec_Enricher_Cons simp del: not_None_eq)
    qed
  qed
qed

lemma getFilteredMachineImages_loop_keys:
  assumes "heap_extends h0 h"
    and "\<not> (\<exists>img \<in> set images. MachineImage.Name img \<notin> set dis
            \<and> (\<exists>v \<in> set (Versions img). getVersion h0 v = None))"
    and "img \<in> set images" and "MachineImage.Name img \<notin> set dis"
    and "v \<in> set (Versions img)"
    and "spec_lookup h0 (MachineImage.Name img) pl pg v = Some config"
  shows "fmdom (entries h0 config)
           |\<subseteq>| fmdom (entries (snd (getFilteredMachineImages_loop h dis pl pg acc images)) v)"
  using assms(1-3)
proof (induction images arbitrary: h acc)
  case Nil
  then show ?case by simp
next
  case (Cons img' images)
  from Cons.prems(2) have rest:
    "\<not> (\<exists>img \<in> set images. MachineImage.Name img \<notin> set dis
            \<and> (\<exists>v \<in> set (Versions img). getVersion h0 v = None))"
    by simp
  show ?case
  proof (cases "MachineImage.Name img' \<in> set dis")
    case True
    with Cons.prems(3) assms(4) have "img \<in> set images" by auto
    from Cons.IH [OF Cons.prems(1) rest this] show ?thesis
      unfolding getFilteredMachineImages_loop_disabled [OF True] .
  next
    case False
    with Cons.prems(2) have good: "\<forall>v \<in> set (Versions img'). getVersion h0 v \<noteq> None"
      by auto
    obtain r h1 where
      run: "getFilteredMachineImages_versions h (MachineImage.Name img') pl pg [] (Versions img')
              = (r, h1)"
      by (cases "getFilteredMachineImages_versions h (MachineImage.Name img') pl pg []
                   (Versions img')")
    have "heap_extends h h1"
      using getFilteredMachineImages_versions_extends
        [of h "MachineImage.Name img'" pl pg "[]" "Versions img'"]
      by (simp add: run)
    with Cons.prems(1) have ext: "heap_extends h0 h1" by (rule heap_extends_trans)
    have "r = Inr (spec_kept_versions h0 (MachineImage.Name img') pl pg (Versions img'))"
      using getFilteredMachineImages_versions_result
        [OF Cons.prems(1), of "MachineImage.Name img'" pl pg "[]" "Versions img'"] good
      by (simp add: run del: not_None_eq)
    with run have "getFilteredMachineImages_versions h (MachineImage.Name img') pl pg []
                     (Versions img')
        = (Inr (spec_kept_versions h0 (MachineImage.Name img') pl pg (Versions img')), h1)"
      by simp
    note step = getFilteredMachineImages_loop_enriched [OF False this]
    show ?thesis
    proof (cases "img \<in> set images")
      case True
      from Cons.IH [OF ext rest True] show ?thesis
        unfolding step .
    next
      case False
      with Cons.prems(3) have "img' = img" by simp
      with assms(5,6) good have
        "fmdom (entries h0 config)
           |\<subseteq>| fmdom (entries (snd (getFilteredMachineImages_versions h
                (MachineImage.Name img') pl pg [] (Versions img'))) v)"
        by (intro getFilteredMachineImages_versions_keys [OF Cons.prems(1)]) simp_all
      then have "fmdom (entries h0 config) |\<subseteq>| fmdom (entries h1 v)"
        by (simp add: run)
      also have "\<dots> |\<subseteq>| fmdom (entries (snd (getFilteredMachineImages_loop h1 dis pl pg
          (if spec_kept_versions h0 (MachineImage.Name img') pl pg (Versions img') \<noteq> []
           then acc @ [\<lparr>MachineImage.Name = MachineImage.Name img',
                  Versions = spec_kept_versions h0 (MachineImage.Name img') pl pg
                               (Versions img')\<rparr>]
           else acc) images)) v)"
        using getFilteredMachineImages_loop_extends by (rule heap_extends_fmdom)
      finally show ?thesis unfolding step .
    qed
  qed
qed

lemma getFilteredMachineImages_result:
  "fst (getFilteredMachineImages h machineImages dis pl pg) =
     (if \<exists>img \<in> set machineImages. MachineImage.Name img \<notin> set dis
            \<and> (\<exists>v \<in> set (Versions img). getVersion h v = None)
      then Inl PanicNilDereference
      else Inr (spec_Enricher h machineImages dis pl pg))"
  unfolding getFilteredMachineImages_def
  using getFilteredMachineImages_loop_result [OF heap_extends_refl, of h dis pl pg "[]"]
  by simp

lemma getFilteredMachineImages_extends:
  "heap_extends h (snd (getFilteredMachineImages h machineImages dis pl pg))"
  unfolding getFilteredMachineImages_def by (rule getFilteredMachineImages_loop_extends)

lemma getFilteredMachineImages_Inr_spec:
  assumes "getFilteredMachineImages h machineImages dis pl pg = (Inr out, h')"
  shows "out = spec_Enricher h machineImages dis pl pg"
    and "\<not> (\<exists>img \<in> set machineImages. MachineImage.Name img \<notin> set dis
            \<and> (\<exists>v \<in> set (Versions img). getVersion h v = None))"
    and "heap_extends h h'"
proof -
  from getFilteredMachineImages_result [of h machineImages dis pl pg] assms
  show "out = spec_Enricher h machineImages dis pl pg"
    and "\<not> (\<exists>img \<in> set machineImages. MachineImage.Name img \<notin> set dis
            \<and> (\<exists>v \<in> set (Versions img). getVersion h v = None))"
    by (simp_all split: if_splits)
  from getFilteredMachineImages_extends [of h machineImages dis pl pg] assms
  show "heap_extends h h'" by simp
qed

text \<open>
  Claim C2.  The claim says that a version without a version identifier is dropped and the
  computation goes on.  The code dereferences the nil pointer that \<open>getVersion\<close>
  returns for such a version: for an image that is not disabled and has a version record
  without the field \<open>version\<close>, both \<open>getFilteredMachineImages\<close> and
  \<open>ComputeMachineImages\<close> (with a filter that lets every entry pass) end in the panic.
\<close>

theorem getFilteredMachineImages_nil_version_panics:
  "fst (getFilteredMachineImages
     ((\<lambda>a. fmempty)(10 := fmupd ''arch'' (VString ''amd64'' :: unit val) fmempty))
     [\<lparr>MachineImage.Name = ''Ubuntu'', Versions = [MapObject 10]\<rparr>] [] [] [])
     = Inl PanicNilDereference
   \<and> fst (ComputeMachineImages (\<lambda>h images inc exc. (Inr images, h)) (\<lambda>m. m)
     ((\<lambda>a. fmempty)(10 := fmupd ''arch'' (VString ''amd64'' :: unit val) fmempty))
     [] [\<lparr>MachineImage.Name = ''Ubuntu'', Versions = [MapObject 10]\<rparr>] [] [] [] [] [])
     = Inl PanicNilDereference"
  by (simp add: getFilteredMachineImages_def ComputeMachineImages_def getVersion_def
      flatImages_def removeDuplicates_def convertOsImagesToMachineImages_def SliceStable_def)

section \<open>What the enrichment keeps\<close>

lemma spec_Enricher_origin:
  assumes "img' \<in> set (spec_Enricher h machineImages dis pl pg)"
  shows "\<exists>img \<in> set machineImages. MachineImage.Name img = MachineImage.Name img'
           \<and> MachineImage.Name img \<notin> set dis
           \<and> Versions img' = spec_kept_versions h (MachineImage.Name img) pl pg (Versions img)
           \<and> Versions img' \<noteq> []"
  using assms by (auto simp: spec_Enricher_def)

lemma spec_kept_versions_origin:
  assumes "version \<in> set (spec_kept_versions h imageName pl pg versions)"
  shows "version \<in> set versions \<and> (\<exists>config. spec_lookup h imageName pl pg version = Some config)"
  using assms by (auto simp: spec_kept_versions_def)

text \<open>
  Every version of the output is a map object of an input image of the same name for
  which the lookup found a config record, and in the store left behind it has all keys of
  that record.
\<close>

lemma getFilteredMachineImages_output_version:
  assumes "getFilteredMachineImages h machineImages dis pl pg = (Inr out, h')"
    and "img' \<in> set out" and "version \<in> set (Versions img')"
  obtains img versionNumber config where
    "img \<in> set machineImages" "MachineImage.Name img = MachineImage.Name img'"
    "MachineImage.Name img \<notin> set dis"
    "Versions img' = spec_kept_versions h (MachineImage.Name img) pl pg (Versions img)"
    "version \<in> set (Versions img)"
    "getVersion h version = Some versionNumber"
    "spec_lookup h (MachineImage.Name img') pl pg version = Some config"
    "getVersionConfig h (MachineImage.Name img') versionNumber pl pg = Some config"
    "\<exists>catalogImage \<in> set (pl @ pg). MachineImage.Name catalogImage = MachineImage.Name img'
         \<and> config \<in> set (Versions catalogImage) \<and> getVersion h config = Some versionNumber"
    "fmdom (entries h config) |\<subseteq>| fmdom (entries h' version)"
    "getVersion h' version = Some versionNumber"
proof -
  note spec = getFilteredMachineImages_Inr_spec [OF assms(1)]
  from assms(2) spec(1) have "img' \<in> set (spec_Enricher h machineImages dis pl pg)"
    by simp
  from spec_Enricher_origin [OF this] obtain img where
    img: "img \<in> set machineImages" "MachineImage.Name img = MachineImage.Name img'"
         "MachineImage.Name img \<notin> set dis"
         "Versions img' = spec_kept_versions h (MachineImage.Name img) pl pg (Versions img)"
    by blast
  from assms(3) img(4) spec_kept_versions_origin obtain config where
    v: "version \<in> set (Versions img)"
       "spec_lookup h (MachineImage.Name img) pl pg version = Some config"
    by metis
  from spec_lookup_Some [OF v(2)] obtain versionNumber where
    n: "getVersion h version = Some versionNumber"
       "getVersionConfig h (MachineImage.Name img) versionNumber pl pg = Some config"
       "\<exists>catalogImage \<in> set (pl @ pg). MachineImage.Name catalogImage = MachineImage.Name img
             \<and> config \<in> set (Versions catalogImage)
             \<and> getVersion h config = Some versionNumber"
    by blast
  have "fmdom (entries h config)
          |\<subseteq>| fmdom (entries (snd (getFilteredMachineImages_loop h dis pl pg [] machineImages))
                         version)"
    by (rule getFilteredMachineImages_loop_keys
          [OF heap_extends_refl spec(2) img(1) img(3) v(1) v(2)])
  then have keys: "fmdom (entries h config) |\<subseteq>| fmdom (entries h' version)"
    using assms(1) by (simp add: getFilteredMachineImages_def)
  have "getVersion h' version = Some versionNumber"
    using heap_extends_getVersion [OF spec(3)] n(1) by simp
  with img v n keys show ?thesis
    using that [of img versionNumber config] by simp
qed

text \<open>
  Claim C3.  When \<open>getFilteredMachineImages\<close> returns, its output is the list that the
  specification describes: a version whose identifier has no record under the image name
  in either provider catalog is in no output image of that name, every image of the
  output has at least one version, and every version of the output has a config record
  that the lookup found for its image name and identifier in one of the two provider
  catalogs; in the store left behind it has every key of that record, among them the
  field \<open>version\<close> with the value of the record.
\<close>

theorem getFilteredMachineImages_only_matched:
  assumes "getFilteredMachineImages h machineImages dis pl pg = (Inr out, h')"
  shows "out = spec_Enricher h machineImages dis pl pg
       \<and> (\<forall>img \<in> set machineImages. \<forall>version \<in> set (Versions img).
             (\<forall>versionNumber. getVersion h version = Some versionNumber \<longrightarrow>
                \<not> (\<exists>catalogImage \<in> set (pl @ pg).
                     MachineImage.Name catalogImage = MachineImage.Name img
                     \<and> (\<exists>config \<in> set (Versions catalogImage).
                           getVersion h config = Some versionNumber)))
             \<longrightarrow> (\<forall>img' \<in> set out. MachineImage.Name img' = MachineImage.Name img
                    \<longrightarrow> version \<notin> set (Versions img')))
       \<and> (\<forall>img' \<in> set out. Versions img' \<noteq> []
             \<and> (\<forall>version \<in> set (Versions img').
                   \<exists>versionNumber config.
                     getVersion h version = Some versionNumber
                   \<and> getVersionConfig h (MachineImage.Name img') versionNumber pl pg = Some config
                   \<and> (\<exists>catalogImage \<in> set (pl @ pg).
                         MachineImage.Name catalogImage = MachineImage.Name img'
                         \<and> config \<in> set (Versions catalogImage)
                         \<and> getVersion h config = Some versionNumber)
                   \<and> fmdom (entries h config) |\<subseteq>| fmdom (entries h' version)
                   \<and> fmlookup (entries h config) ''version'' = Some (VString versionNumber)
                   \<and> fmlookup (entries h' version) ''version'' = Some (VString versionNumber)))"
proof -
  have out: "out = spec_Enricher h machineImages dis pl pg"
    using assms by (rule getFilteredMachineImages_Inr_spec)
  have present: "\<exists>versionNumber config.
                     getVersion h version = Some versionNumber
                   \<and> getVersionConfig h (MachineImage.Name img') versionNumber pl pg = Some config
                   \<and> (\<exists>catalogImage \<in> set (pl @ pg).
                         MachineImage.Name catalogImage = MachineImage.Name img'
                         \<and> config \<in> set (Versions catalogImage)
                         \<and> getVersion h config = Some versionNumber)
                   \<and> fmdom (entries h config) |\<subseteq>| fmdom (entries h' version)
                   \<and> fmlookup (entries h config) ''version'' = Some (VString versionNumber)
                   \<and> fmlookup (entries h' version) ''version'' = Some (VString versionNumber)"
    if "img' \<in> set out" "version \<in> set (Versions img')" for img' version
  proof -
    from getFilteredMachineImages_output_version [OF assms that]
    obtain versionNumber config where
      facts: "getVersion h version = Some versionNumber"
        "getVersionConfig h (MachineImage.Name img') versionNumber pl pg = Some config"
        "\<exists>catalogImage \<in> set (pl @ pg). MachineImage.Name catalogImage = MachineImage.Name img'
           \<and> config \<in> set (Versions catalogImage) \<and> getVersion h config = Some versionNumber"
        "fmdom (entries h config) |\<subseteq>| fmdom (entries h' version)"
        "getVersion h' version = Some versionNumber"
      by metis
    from facts(3) have "fmlookup (entries h config) ''version'' = Some (VString versionNumber)"
      using getVersion_Some_lookup by blast
    moreover from facts(5) have
      "fmlookup (entries h' version) ''version'' = Some (VString versionNumber)"
      by (rule getVersion_Some_lookup)
    ultimately show ?thesis using facts(1-4) by blast
  qed
  have nonempty: "Versions img' \<noteq> []" if "img' \<in> set out" for img'
    using that out spec_Enricher_origin by metis
  have absent: "version \<notin> set (Versions img')"
    if "img \<in> set machineImages" "version \<in> set (Versions img)"
      and none: "\<forall>versionNumber. getVersion h version = Some versionNumber \<longrightarrow>
                \<not> (\<exists>catalogImage \<in> set (pl @ pg).
                     MachineImage.Name catalogImage = MachineImage.Name img
                     \<and> (\<exists>config \<in> set (Versions catalogImage).
                           getVersion h config = Some versionNumber))"
      and "img' \<in> set out" "MachineImage.Name img' = MachineImage.Name img"
    for img version img'
  proof
    assume "version \<in> set (Versions img')"
    from present [OF \<open>img' \<in> set out\<close> this] obtain versionNumber config where
      "getVersion h version = Some versionNumber"
      "\<exists>catalogImage \<in> set (pl @ pg). MachineImage.Name catalogImage = MachineImage.Name img'
           \<and> config \<in> set (Versions catalogImage) \<and> getVersion h config = Some versionNumber"
      by blast
    with none that(5) show False by metis
  qed
  from out present nonempty absent show ?thesis by blast
qed

section \<open>The merge in the store\<close>

text \<open>
  The enrichment writes only to the map objects of the versions it goes through.  When
  no such object occurs twice among them and none is an object of a provider record, each
  is written by one merge only, with the entries the config record had at the start.
\<close>

lemma getFilteredMachineImages_versions_frame:
  "m \<notin> set vs \<Longrightarrow>
   entries (snd (getFilteredMachineImages_versions h name pl pg acc vs)) m = entries h m"
proof (induction vs arbitrary: h acc)
  case Nil
  then show ?case by simp
next
  case (Cons v vs)
  from Cons.prems have m: "m \<noteq> v" "m \<notin> set vs" by auto
  show ?case
  proof (cases "getVersion h v")
    case None
    then show ?thesis by simp
  next
    case (Some versionNumber)
    show ?thesis
    proof (cases "spec_lookup h name pl pg v")
      case None
      show ?thesis
        unfolding getFilteredMachineImages_versions_skip [OF Some None]
        by (rule Cons.IH [OF m(2)])
    next
      case found: (Some config)
      from getFilteredMachineImages_versions_merge [OF Some found] obtain a where
        a: "v = MapObject a"
        and run: "\<And>acc vs. getFilteredMachineImages_versions h name pl pg acc (v # vs)
           = getFilteredMachineImages_versions (h(a := h a ++\<^sub>f entries h config))
               name pl pg (acc @ [v]) vs"
        by blast
      define h1 where "h1 = h(a := h a ++\<^sub>f entries h config)"
      have "entries h1 m = entries h m"
        using m(1) a by (simp add: h1_def entries_update)
      with Cons.IH [OF m(2), of h1 "acc @ [v]"]
      show ?thesis unfolding run h1_def [symmetric] by simp
    qed
  qed
qed

lemma spec_lookup_in_catalogs:
  assumes "spec_lookup h name pl pg v = Some config"
  shows "config \<in> set (concat (map Versions (pl @ pg)))"
proof -
  from spec_lookup_Some [OF assms] obtain catalogImage where
    "catalogImage \<in> set (pl @ pg)" "config \<in> set (Versions catalogImage)"
    by blast
  then show ?thesis by auto
qed

lemma getFilteredMachineImages_versions_content:
  assumes "distinct vs" and "set vs \<inter> set (concat (map Versions (pl @ pg))) = {}"
    and "\<forall>v \<in> set vs. getVersion h v \<noteq> None" and "v \<in> set vs"
  shows "entries (snd (getFilteredMachineImages_versions h name pl pg acc vs)) v =
     (case spec_lookup h name pl pg v of
        None \<Rightarrow> entries h v
      | Some config \<Rightarrow> entries h v ++\<^sub>f entries h config)"
  using assms
proof (induction vs arbitrary: h acc)
  case Nil
  then show ?case by simp
next
  case (Cons w vs)
  from Cons.prems(1) have d: "distinct vs" "w \<notin> set vs" by auto
  from Cons.prems(2) have c: "set vs \<inter> set (concat (map Versions (pl @ pg))) = {}"
    and wc: "w \<notin> set (concat (map Versions (pl @ pg)))" by auto
  from Cons.prems(3) obtain versionNumber where now: "getVersion h w = Some versionNumber"
    by auto
  show ?case
  proof (cases "spec_lookup h name pl pg w")
    case None
    note run = getFilteredMachineImages_versions_skip [OF now None]
    show ?thesis
    proof (cases "v = w")
      case True
      with None show ?thesis
        unfolding run by (simp add: getFilteredMachineImages_versions_frame [OF d(2)])
    next
      case False
      with Cons.prems(4) have "v \<in> set vs" by simp
      from Cons.IH [OF d(1) c _ this] Cons.prems(3) show ?thesis
        unfolding run by simp
    qed
  next
    case found: (Some config)
    from getFilteredMachineImages_versions_merge [OF now found] obtain a where
      a: "w = MapObject a"
      and ext: "heap_extends h (h(a := h a ++\<^sub>f entries h config))"
      and run: "\<And>acc vs. getFilteredMachineImages_versions h name pl pg acc (w # vs)
           = getFilteredMachineImages_versions (h(a := h a ++\<^sub>f entries h config))
               name pl pg (acc @ [w]) vs"
      by blast
    define h1 where "h1 = h(a := h a ++\<^sub>f entries h config)"
    have other: "entries h1 m = entries h m" if "m \<noteq> w" for m
      using that by (simp add: h1_def a entries_update)
    show ?thesis
    proof (cases "v = w")
      case True
      have "entries (snd (getFilteredMachineImages_versions h1 name pl pg (acc @ [w]) vs)) w
              = entries h1 w"
        by (rule getFilteredMachineImages_versions_frame [OF d(2)])
      also have "\<dots> = entries h w ++\<^sub>f entries h config"
        by (simp add: h1_def a)
      finally show ?thesis
        unfolding run h1_def [symmetric] using True found by simp
    next
      case False
      with Cons.prems(4) have v: "v \<in> set vs" by simp
      have same: "spec_lookup h1 = spec_lookup h" "getVersion h1 = getVersion h"
        using ext unfolding h1_def [symmetric]
        by (simp_all add: heap_extends_spec_lookup heap_extends_getVersion)
      from Cons.prems(3) have "\<forall>v \<in> set vs. getVersion h1 v \<noteq> None"
        by (simp add: same)
      from Cons.IH [OF d(1) c this v, of "acc @ [w]"] have
        "entries (snd (getFilteredMachineImages_versions h1 name pl pg (acc @ [w]) vs)) v =
           (case spec_lookup h name pl pg v of
              None \<Rightarrow> entries h1 v
            | Some config \<Rightarrow> entries h1 v ++\<^sub>f entries h1 config)"
        by (simp add: same)
      also have "\<dots> = (case spec_lookup h name pl pg v of
              None \<Rightarrow> entries h v
            | Some config \<Rightarrow> entries h v ++\<^sub>f entries h config)"
      proof (cases "spec_lookup h name pl pg v")
        case None
        then show ?thesis using False by (simp add: other)
      next
        case (Some config')
        from spec_lookup_in_catalogs [OF Some] wc have "config' \<noteq> w" by auto
        with Some False show ?thesis by (simp add: other)
      qed
      finally show ?thesis
        unfolding run h1_def [symmetric] .
    qed
  qed
qed


lemma getFilteredMachineImages_loop_frame:
  "m \<notin> set (concat (map Versions
            (filter (\<lambda>img. MachineImage.Name img \<notin> set dis) images))) \<Longrightarrow>
   entries (snd (getFilteredMachineImages_loop h dis pl pg acc images)) m = entries h m"
proof (induction images arbitrary: h acc)
  case Nil
  then show ?case by simp
next
  case (Cons img images)
  show ?case
  proof (cases "MachineImage.Name img \<in> set dis")
    case True
    with Cons.prems have "m \<notin> set (concat (map Versions
            (filter (\<lambda>img. MachineImage.Name img \<notin> set dis) images)))"
      by simp
    from Cons.IH [OF this] show ?thesis
      unfolding getFilteredMachineImages_loop_disabled [OF True] .
  next
    case False
    with Cons.prems have m: "m \<notin> set (Versions img)"
      "m \<notin> set (concat (map Versions
            (filter (\<lambda>img. MachineImage.Name img \<notin> set dis) images)))"
      by simp_all
    obtain r h1 where
      run: "getFilteredMachineImages_versions h (MachineImage.Name img) pl pg [] (Versions img)
              = (r, h1)"
      by (cases "getFilteredMachineImages_versions h (MachineImage.Name img) pl pg []
                   (Versions img)")
    have h1: "entries h1 m = entries h m"
      using getFilteredMachineImages_versions_frame
        [OF m(1), of h "MachineImage.Name img" pl pg "[]"]
      by (simp add: run)
    show ?thesis
    proof (cases r)
      case (Inl panic)
      with run have "getFilteredMachineImages_versions h (MachineImage.Name img) pl pg []
                       (Versions img) = (Inl panic, h1)"
        by simp
      note step = getFilteredMachineImages_loop_panic [OF False this]
      show ?thesis unfolding step using h1 by simp
    next
      case (Inr versionsWithConfig)
      with run have "getFilteredMachineImages_versions h (MachineImage.Name img) pl pg []
                       (Versions img) = (Inr versionsWithConfig, h1)"
        by simp
      note step = getFilteredMachineImages_loop_enriched [OF False this]
      show ?thesis unfolding step using Cons.IH [OF m(2)] h1 by simp
    qed
  qed
qed

lemma getFilteredMachineImages_loop_content:
  assumes "distinct (concat (map Versions
              (filter (\<lambda>img. MachineImage.Name img \<notin> set dis) images)))"
    and "set (concat (map Versions
              (filter (\<lambda>img. MachineImage.Name img \<notin> set dis) images)))
           \<inter> set (concat (map Versions (pl @ pg))) = {}"
    and "\<not> (\<exists>img \<in> set images. MachineImage.Name img \<notin> set dis
            \<and> (\<exists>v \<in> set (Versions img). getVersion h v = None))"
    and "img \<in> set images" and "MachineImage.Name img \<notin> set dis"
    and "v \<in> set (Versions img)"
  shows "entries (snd (getFilteredMachineImages_loop h dis pl pg acc images)) v =
     (case spec_lookup h (MachineImage.Name img) pl pg v of
        None \<Rightarrow> entries h v
      | Some config \<Rightarrow> entries h v ++\<^sub>f entries h config)"
  using assms(1-4)
proof (induction images arbitrary: h acc)
  case Nil
  then show ?case by simp
next
  case (Cons img' images)
  show ?case
  proof (cases "MachineImage.Name img' \<in> set dis")
    case True
    with Cons.prems(4) assms(5) have "img \<in> set images" by auto
    from Cons.IH [OF _ _ _ this] Cons.prems(1-3) True show ?thesis
      unfolding getFilteredMachineImages_loop_disabled [OF True] by simp
  next
    case False
    from Cons.prems(1) False have d: "distinct (Versions img')"
      "distinct (concat (map Versions
              (filter (\<lambda>img. MachineImage.Name img \<notin> set dis) images)))"
      "set (Versions img') \<inter> set (concat (map Versions
              (filter (\<lambda>img. MachineImage.Name img \<notin> set dis) images))) = {}"
      by simp_all
    from Cons.prems(2) False have c:
      "set (Versions img') \<inter> set (concat (map Versions (pl @ pg))) = {}"
      "set (concat (map Versions
              (filter (\<lambda>img. MachineImage.Name img \<notin> set dis) images)))
           \<inter> set (concat (map Versions (pl @ pg))) = {}"
      by auto
    from Cons.prems(3) False have good: "\<forall>v \<in> set (Versions img'). getVersion h v \<noteq> None"
      by auto
    from Cons.prems(3) have rest:
      "\<not> (\<exists>img \<in> set images. MachineImage.Name img \<notin> set dis
            \<and> (\<exists>v \<in> set (Versions img). getVersion h v = None))"
      by simp
    obtain r h1 where
      run: "getFilteredMachineImages_versions h (MachineImage.Name img') pl pg [] (Versions img')
              = (r, h1)"
      by (cases "getFilteredMachineImages_versions h (MachineImage.Name img') pl pg []
                   (Versions img')")
    have ext: "heap_extends h h1"
      using getFilteredMachineImages_versions_extends
        [of h "MachineImage.Name img'" pl pg "[]" "Versions img'"]
      by (simp add: run)
    note same = heap_extends_spec_lookup [OF ext] heap_extends_getVersion [OF ext]
    have "r = Inr (spec_kept_versions h (MachineImage.Name img') pl pg (Versions img'))"
      using getFilteredMachineImages_versions_result
        [OF heap_extends_refl, of h "MachineImage.Name img'" pl pg "[]" "Versions img'"] good
      by (simp add: run del: not_None_eq)
    with run have "getFilteredMachineImages_versions h (MachineImage.Name img') pl pg []
                     (Versions img')
        = (Inr (spec_kept_versions h (MachineImage.Name img') pl pg (Versions img')), h1)"
      by simp
    note step = getFilteredMachineImages_loop_enriched [OF False this]
    define acc1 where "acc1 =
      (if spec_kept_versions h (MachineImage.Name img') pl pg (Versions img') \<noteq> []
       then acc @ [\<lparr>MachineImage.Name = MachineImage.Name img',
              Versions = spec_kept_versions h (MachineImage.Name img') pl pg (Versions img')\<rparr>]
       else acc)"
    have frame1: "entries h1 m = entries h m" if "m \<notin> set (Versions img')" for m
      using getFilteredMachineImages_versions_frame
        [OF that, of h "MachineImage.Name img'" pl pg "[]"]
      by (simp add: run)
    show ?thesis
    proof (cases "v \<in> set (Versions img')")
      case True
      with d(3) have "v \<notin> set (concat (map Versions
              (filter (\<lambda>img. MachineImage.Name img \<notin> set dis) images)))"
        by auto
      then have "entries (snd (getFilteredMachineImages_loop h1 dis pl pg acc1 images)) v
                   = entries h1 v"
        by (rule getFilteredMachineImages_loop_frame)
      also have "\<dots> = (case spec_lookup h (MachineImage.Name img') pl pg v of
              None \<Rightarrow> entries h v
            | Some config \<Rightarrow> entries h v ++\<^sub>f entries h config)"
        using getFilteredMachineImages_versions_content
          [OF d(1) c(1) good True, of "MachineImage.Name img'" "[]"]
        by (simp add: run)
      finally have here: "entries (snd (getFilteredMachineImages_loop h1 dis pl pg acc1 images)) v
          = (case spec_lookup h (MachineImage.Name img') pl pg v of
              None \<Rightarrow> entries h v
            | Some config \<Rightarrow> entries h v ++\<^sub>f entries h config)" .
      have "img = img'"
      proof (rule ccontr)
        assume "img \<noteq> img'"
        with Cons.prems(4) have "img \<in> set images" by simp
        with assms(5,6) have "v \<in> set (concat (map Versions
              (filter (\<lambda>img. MachineImage.Name img \<notin> set dis) images)))"
          by auto
        with d(3) True show False by auto
      qed
      with here show ?thesis
        unfolding step acc1_def [symmetric] by simp
    next
      case False
      with Cons.prems(4) assms(6) have img: "img \<in> set images" by auto
      from rest have rest1:
        "\<not> (\<exists>img \<in> set images. MachineImage.Name img \<notin> set dis
            \<and> (\<exists>v \<in> set (Versions img). getVersion h1 v = None))"
        by (simp add: same)
      from Cons.IH [OF d(2) c(2) rest1 img, of acc1] have
        "entries (snd (getFilteredMachineImages_loop h1 dis pl pg acc1 images)) v =
           (case spec_lookup h (MachineImage.Name img) pl pg v of
              None \<Rightarrow> entries h1 v
            | Some config \<Rightarrow> entries h1 v ++\<^sub>f entries h1 config)"
        by (simp add: same)
      also have "\<dots> = (case spec_lookup h (MachineImage.Name img) pl pg v of
              None \<Rightarrow> entries h v
            | Some config \<Rightarrow> entries h v ++\<^sub>f entries h config)"
      proof (cases "spec_lookup h (MachineImage.Name img) pl pg v")
        case None
        then show ?thesis using False by (simp add: frame1)
      next
        case (Some config')
        from spec_lookup_in_catalogs [OF Some] c(1) have "config' \<notin> set (Versions img')"
          by auto
        with Some False show ?thesis by (simp add: frame1)
      qed
      finally show ?thesis
        unfolding step acc1_def [symmetric] .
    qed
  qed
qed

text \<open>
  Claim C9.  The claim says that every version of the output has, for every key of its
  config record, the value of that record, and for every other key its original value.
  That fails when two images share a map object: the merge for the image B writes into
  the object that is also the version of the image A, so the output version of A has the
  value of the config record of B under the key \<open>x\<close>, which its own config record has
  with another value, and a new value under the key \<open>z\<close>, which its own config record
  does not have.
\<close>

theorem getFilteredMachineImages_merge_shared_counterexample:
  "fst (getFilteredMachineImages shared_heap shared_images [] [] shared_provider)
     = Inr shared_images
   \<and> getVersion shared_heap (MapObject 10) = Some ''1''
   \<and> getVersionConfig shared_heap ''A'' ''1'' [] shared_provider = Some (MapObject 11)
   \<and> fmlookup (entries shared_heap (MapObject 11)) ''x'' = Some (VString ''a'')
   \<and> fmlookup (entries (snd (getFilteredMachineImages shared_heap shared_images [] []
                                shared_provider)) (MapObject 10)) ''x''
       = Some (VString ''other'')
   \<and> fmlookup (entries shared_heap (MapObject 11)) ''z'' = None
   \<and> fmlookup (entries shared_heap (MapObject 10)) ''z'' = Some (VString ''orig'')
   \<and> fmlookup (entries (snd (getFilteredMachineImages shared_heap shared_images [] []
                                shared_provider)) (MapObject 10)) ''z''
       = Some (VString ''new'')"
  by (simp add: getFilteredMachineImages_def getVersionConfig_def getVersion_def
      mergeConfig_object shared_heap_def shared_images_def shared_provider_def)

text \<open>
  Claim C9, as amended.  When no map object occurs twice among the versions of the images
  that are not disabled, and none of them is an object of a provider record, every
  version of the output is, in the store left behind, the merge of what it was with its
  config record: every key of the config record has the value of the config record, and
  every other key is as in the original version.  The config record itself is unchanged.
\<close>

theorem getFilteredMachineImages_merge:
  assumes "getFilteredMachineImages h machineImages dis pl pg = (Inr out, h')"
    and "distinct (concat (map Versions
              (filter (\<lambda>img. MachineImage.Name img \<notin> set dis) machineImages)))"
    and "set (concat (map Versions
              (filter (\<lambda>img. MachineImage.Name img \<notin> set dis) machineImages)))
           \<inter> set (concat (map Versions (pl @ pg))) = {}"
    and "img' \<in> set out" and "version \<in> set (Versions img')"
  shows "\<exists>versionNumber config.
           getVersion h version = Some versionNumber
         \<and> getVersionConfig h (MachineImage.Name img') versionNumber pl pg = Some config
         \<and> entries h' config = entries h config
         \<and> entries h' version = entries h version ++\<^sub>f entries h config
         \<and> (\<forall>key val. fmlookup (entries h config) key = Some val
               \<longrightarrow> fmlookup (entries h' version) key = Some val)
         \<and> (\<forall>key. fmlookup (entries h config) key = None
               \<longrightarrow> fmlookup (entries h' version) key = fmlookup (entries h version) key)"
proof -
  note spec = getFilteredMachineImages_Inr_spec [OF assms(1)]
  from getFilteredMachineImages_output_version [OF assms(1,4,5)]
  obtain img versionNumber config where
    facts: "img \<in> set machineImages" "MachineImage.Name img = MachineImage.Name img'"
      "MachineImage.Name img \<notin> set dis" "version \<in> set (Versions img)"
      "getVersion h version = Some versionNumber"
      "spec_lookup h (MachineImage.Name img') pl pg version = Some config"
      "getVersionConfig h (MachineImage.Name img') versionNumber pl pg = Some config"
    by metis
  have "entries (snd (getFilteredMachineImages_loop h dis pl pg [] machineImages)) version =
     (case spec_lookup h (MachineImage.Name img) pl pg version of
        None \<Rightarrow> entries h version
      | Some config \<Rightarrow> entries h version ++\<^sub>f entries h config)"
    by (rule getFilteredMachineImages_loop_content
          [OF assms(2,3) spec(2) facts(1) facts(3) facts(4)])
  with facts(2,6) assms(1) have merged: "entries h' version = entries h version ++\<^sub>f entries h config"
    by (simp add: getFilteredMachineImages_def)
  from spec_lookup_in_catalogs [OF facts(6)] assms(3)
  have "config \<notin> set (concat (map Versions
              (filter (\<lambda>img. MachineImage.Name img \<notin> set dis) machineImages)))"
    by auto
  then have "entries (snd (getFilteredMachineImages_loop h dis pl pg [] machineImages)) config
               = entries h config"
    by (rule getFilteredMachineImages_loop_frame)
  with assms(1) have kept: "entries h' config = entries h config"
    by (simp add: getFilteredMachineImages_def)
  have over: "\<forall>key val. fmlookup (entries h config) key = Some val
               \<longrightarrow> fmlookup (entries h' version) key = Some val"
    by (simp add: merged fmlookup_fmadd_case del: fmlookup_add)
  have keep: "\<forall>key. fmlookup (entries h config) key = None
               \<longrightarrow> fmlookup (entries h' version) key = fmlookup (entries h version) key"
    by (simp add: merged fmlookup_fmadd_case del: fmlookup_add)
  from facts(5,7) kept merged over keep show ?thesis by blast
qed

section \<open>Disabled images and the order of the output\<close>

lemma convertOsImagesToMachineImages_result_eq:
  "convertOsImagesToMachineImages_result result m =
     result @ map (\<lambda>(name, versions). \<lparr>MachineImage.Name = name, Versions = versions\<rparr>) m"
  by (induction result m rule: convertOsImagesToMachineImages_result.induct) auto

lemma distinct_convertOsImagesToMachineImages_fill:
  "distinct (map fst m) \<Longrightarrow> distinct (map fst (convertOsImagesToMachineImages_fill m images))"
  by (induction images arbitrary: m) (auto simp: distinct_update split: option.splits)

lemma names_convertOsImagesToMachineImages:
  "map MachineImage.Name (convertOsImagesToMachineImages rangeOrder images)
     = map fst (rangeOrder (convertOsImagesToMachineImages_fill [] images))"
  by (simp add: convertOsImagesToMachineImages_def convertOsImagesToMachineImages_result_eq
      comp_def case_prod_beta)

lemma distinct_names_convertOsImagesToMachineImages:
  assumes "\<And>m. mset (rangeOrder m) = mset m"
  shows "distinct (map MachineImage.Name (convertOsImagesToMachineImages rangeOrder images))"
proof -
  have "mset (map fst (rangeOrder (convertOsImagesToMachineImages_fill [] images)))
          = mset (map fst (convertOsImagesToMachineImages_fill [] images))"
    using assms by (metis mset_map)
  moreover have "distinct (map fst (convertOsImagesToMachineImages_fill [] images))"
    by (rule distinct_convertOsImagesToMachineImages_fill) simp
  ultimately show ?thesis
    unfolding names_convertOsImagesToMachineImages
    by (metis mset_eq_imp_distinct_iff)
qed

lemma SliceStable_insert_key:
  fixes f :: "'a \<Rightarrow> 'b::linorder"
  shows "SliceStable_insert (\<lambda>i j. f i < f j) x ys = insort_key f x ys"
  by (induction ys) auto

lemma SliceStable_key:
  fixes f :: "'a \<Rightarrow> 'b::linorder"
  shows "SliceStable (\<lambda>i j. f i < f j) xs = sort_key f xs"
proof -
  have "SliceStable_insert (\<lambda>i j. f i < f j) = insort_key f"
    by (intro ext) (rule SliceStable_insert_key)
  then show ?thesis by (simp add: SliceStable_def sort_key_def)
qed

lemma SliceStable_insert_promote:
  assumes "\<forall>y \<in> set promoted. P y" and "\<forall>y \<in> set others. \<not> P y"
  shows "SliceStable_insert (\<lambda>i j. P i \<and> \<not> P j) x (promoted @ others)
           = (if P x then x # promoted @ others else promoted @ x # others)"
  using assms
proof (induction promoted)
  case Nil
  then show ?case by (cases others) auto
next
  case (Cons y promoted)
  then show ?case by auto
qed

lemma SliceStable_promote:
  "SliceStable (\<lambda>i j. P i \<and> \<not> P j) xs = filter P xs @ filter (\<lambda>x. \<not> P x) xs"
proof (induction xs)
  case Nil
  then show ?case by (simp add: SliceStable_def)
next
  case (Cons x xs)
  have "SliceStable (\<lambda>i j. P i \<and> \<not> P j) (x # xs)
          = SliceStable_insert (\<lambda>i j. P i \<and> \<not> P j) x (filter P xs @ filter (\<lambda>x. \<not> P x) xs)"
    using Cons.IH by (simp add: SliceStable_def)
  also have "\<dots> = (if P x then x # filter P xs @ filter (\<lambda>x. \<not> P x) xs
                    else filter P xs @ x # filter (\<lambda>x. \<not> P x) xs)"
    by (rule SliceStable_insert_promote) simp_all
  finally show ?case by simp
qed

lemma names_spec_Enricher:
  "map MachineImage.Name (spec_Enricher h machineImages dis pl pg)
     = map MachineImage.Name
         (filter (\<lambda>img. MachineImage.Name img \<notin> set dis
              \<and> spec_kept_versions h (MachineImage.Name img) pl pg (Versions img) \<noteq> [])
            machineImages)"
  by (simp add: spec_Enricher_def comp_def)

lemma ComputeMachineImages_Inr:
  assumes "ComputeMachineImages filterOsImages rangeOrder h lssOsImages landscapeOsImages
             providerOsImages providerLandscapeOsImages disableMachineImages
             includeFilters excludeFilters = (Inr out, h')"
  shows "out = [] \<or> (\<exists>flatOsImages h1.
           getFilteredMachineImages h1
             (SliceStable (\<lambda>i j. MachineImage.Name i = OsNameGardenLinux
                                 \<and> MachineImage.Name j \<noteq> OsNameGardenLinux)
                (SliceStable (\<lambda>i j. MachineImage.Name i < MachineImage.Name j)
                   (convertOsImagesToMachineImages rangeOrder flatOsImages)))
             disableMachineImages providerLandscapeOsImages providerOsImages = (Inr out, h'))"
  using assms unfolding ComputeMachineImages_def Let_def
  by (auto split: option.splits sum.splits if_splits prod.splits)

lemma strict_sorted_constant:
  fixes xs :: "'b::linorder list"
  assumes "sorted_wrt (<) xs" and "\<forall>x \<in> set xs. x = c"
  shows "xs = [] \<or> xs = [c]"
proof (cases xs)
  case Nil
  then show ?thesis by simp
next
  case (Cons x xs')
  with assms show ?thesis by (cases xs') auto
qed

lemma strict_sorted_names_filter:
  assumes "sorted_wrt (<) (map MachineImage.Name xs)"
  shows "sorted_wrt (<) (map MachineImage.Name (filter K xs))"
  using assms by (simp add: sorted_wrt_map sorted_wrt_filter)

lemma strict_sorted_names_SliceStable:
  assumes "distinct (map MachineImage.Name machineImages)"
  shows "sorted_wrt (<) (map MachineImage.Name
           (SliceStable (\<lambda>i j. MachineImage.Name i < MachineImage.Name j) machineImages))"
proof -
  have "mset (map MachineImage.Name (sort_key MachineImage.Name machineImages))
          = mset (map MachineImage.Name machineImages)"
    by simp
  with assms have "distinct (map MachineImage.Name (sort_key MachineImage.Name machineImages))"
    by (metis mset_eq_imp_distinct_iff)
  moreover have "sorted (map MachineImage.Name (sort_key MachineImage.Name machineImages))"
    by (rule sorted_sort_key)
  ultimately show ?thesis
    by (simp add: SliceStable_key strict_sorted_iff)
qed

text \<open>
  Claim C5.  No image of the output of \<open>ComputeMachineImages\<close> bears a name of the
  disable list, whatever the provider catalogs hold.
\<close>

theorem ComputeMachineImages_disabled_absent:
  assumes "ComputeMachineImages filterOsImages rangeOrder h lssOsImages landscapeOsImages
             providerOsImages providerLandscapeOsImages disableMachineImages
             includeFilters excludeFilters = (Inr out, h')"
    and "name \<in> set disableMachineImages"
  shows "name \<notin> MachineImage.Name ` set out"
proof -
  from ComputeMachineImages_Inr [OF assms(1)] show ?thesis
  proof
    assume "out = []"
    then show ?thesis by simp
  next
    assume "\<exists>flatOsImages h1.
           getFilteredMachineImages h1
             (SliceStable (\<lambda>i j. MachineImage.Name i = OsNameGardenLinux
                                 \<and> MachineImage.Name j \<noteq> OsNameGardenLinux)
                (SliceStable (\<lambda>i j. MachineImage.Name i < MachineImage.Name j)
                   (convertOsImagesToMachineImages rangeOrder flatOsImages)))
             disableMachineImages providerLandscapeOsImages providerOsImages = (Inr out, h')"
    then obtain machineImages h1 where
      "getFilteredMachineImages h1 machineImages disableMachineImages providerLandscapeOsImages
         providerOsImages = (Inr out, h')"
      by blast
    then have "out = spec_Enricher h1 machineImages disableMachineImages
                 providerLandscapeOsImages providerOsImages"
      by (rule getFilteredMachineImages_Inr_spec)
    then have "\<forall>img' \<in> set out. MachineImage.Name img' \<notin> set disableMachineImages"
      using spec_Enricher_origin by metis
    with assms(2) show ?thesis by auto
  qed
qed

text \<open>
  Claim C6.  The names of the output of \<open>ComputeMachineImages\<close> are the distinguished
  name first, if it is there at all, followed by the other names in strictly ascending
  order.  The iteration order of the grouping map is any rearrangement of its entries.
\<close>

theorem ComputeMachineImages_order:
  assumes "ComputeMachineImages filterOsImages rangeOrder h lssOsImages landscapeOsImages
             providerOsImages providerLandscapeOsImages disableMachineImages
             includeFilters excludeFilters = (Inr out, h')"
    and "\<And>m. mset (rangeOrder m) = mset m"
  shows "\<exists>rest. (map MachineImage.Name out = OsNameGardenLinux # rest
                 \<or> map MachineImage.Name out = rest)
              \<and> OsNameGardenLinux \<notin> set rest \<and> sorted_wrt (<) rest"
proof -
  from ComputeMachineImages_Inr [OF assms(1)] show ?thesis
  proof
    assume "out = []"
    then have "map MachineImage.Name out = []" by simp
    then show ?thesis by (intro exI [of _ "[]"]) simp
  next
    assume "\<exists>flatOsImages h1.
           getFilteredMachineImages h1
             (SliceStable (\<lambda>i j. MachineImage.Name i = OsNameGardenLinux
                                 \<and> MachineImage.Name j \<noteq> OsNameGardenLinux)
                (SliceStable (\<lambda>i j. MachineImage.Name i < MachineImage.Name j)
                   (convertOsImagesToMachineImages rangeOrder flatOsImages)))
             disableMachineImages providerLandscapeOsImages providerOsImages = (Inr out, h')"
    then obtain flatOsImages h1 where run:
      "getFilteredMachineImages h1
             (SliceStable (\<lambda>i j. MachineImage.Name i = OsNameGardenLinux
                                 \<and> MachineImage.Name j \<noteq> OsNameGardenLinux)
                (SliceStable (\<lambda>i j. MachineImage.Name i < MachineImage.Name j)
                   (convertOsImagesToMachineImages rangeOrder flatOsImages)))
             disableMachineImages providerLandscapeOsImages providerOsImages = (Inr out, h')"
      by blast
    define sorted1 where "sorted1 =
      SliceStable (\<lambda>i j. MachineImage.Name i < MachineImage.Name j)
        (convertOsImagesToMachineImages rangeOrder flatOsImages)"
    define K where "K = (\<lambda>img :: MachineImage. MachineImage.Name img \<notin> set disableMachineImages
       \<and> spec_kept_versions h1 (MachineImage.Name img) providerLandscapeOsImages providerOsImages
             (Versions img) \<noteq> [])"
    define promoted where "promoted = map MachineImage.Name
       (filter K (filter (\<lambda>img. MachineImage.Name img = OsNameGardenLinux) sorted1))"
    define rest where "rest = map MachineImage.Name
       (filter K (filter (\<lambda>img. MachineImage.Name img \<noteq> OsNameGardenLinux) sorted1))"
    have strict: "sorted_wrt (<) (map MachineImage.Name sorted1)"
      unfolding sorted1_def
      by (rule strict_sorted_names_SliceStable)
         (rule distinct_names_convertOsImagesToMachineImages [OF assms(2)])
    have out: "out = spec_Enricher h1
             (SliceStable (\<lambda>i j. MachineImage.Name i = OsNameGardenLinux
                                 \<and> MachineImage.Name j \<noteq> OsNameGardenLinux) sorted1)
             disableMachineImages providerLandscapeOsImages providerOsImages"
      using run unfolding sorted1_def by (rule getFilteredMachineImages_Inr_spec)
    have names: "map MachineImage.Name out = promoted @ rest"
      unfolding out names_spec_Enricher SliceStable_promote promoted_def rest_def K_def
      by simp
    have "sorted_wrt (<) promoted"
      unfolding promoted_def filter_filter by (rule strict_sorted_names_filter [OF strict])
    moreover have "\<forall>n \<in> set promoted. n = OsNameGardenLinux"
      unfolding promoted_def by auto
    ultimately have promoted: "promoted = [] \<or> promoted = [OsNameGardenLinux]"
      by (rule strict_sorted_constant)
    have "sorted_wrt (<) rest"
      unfolding rest_def filter_filter by (rule strict_sorted_names_filter [OF strict])
    moreover have "OsNameGardenLinux \<notin> set rest"
      unfolding rest_def by auto
    ultimately show ?thesis
      using names promoted by (intro exI [of _ rest]) auto
  qed
qed

section \<open>The theorems on the example catalogs\<close>

text \<open>
  The pipeline is run on the example catalogs step by step, with the grouping map
  iterated in reverse order, and the theorems above are instantiated on the run.
\<close>

lemma DeepEqual_map_NilMap [simp]:
  "DeepEqual_map h NilMap NilMap"
  "\<not> DeepEqual_map h NilMap (MapObject a)"
  "\<not> DeepEqual_map h (MapObject a) NilMap"
  by (simp_all add: DeepEqual_map_def)

lemma not_fmrel_at:
  "\<not> rel_option R (fmlookup m k) (fmlookup n k) \<Longrightarrow> \<not> fmrel R m n"
  by (auto simp: fmrel_iff)

lemma example_getVersion:
  "getVersion example_heap (MapObject 10) = Some ''20.04''"
  "getVersion example_heap (MapObject 11) = Some ''22.04''"
  "getVersion example_heap (MapObject 12) = Some ''1.0''"
  "getVersion example_heap (MapObject 13) = Some ''3.0''"
  "getVersion example_heap (MapObject 15) = Some ''20.04''"
  "getVersion example_heap (MapObject 16) = Some ''1.0''"
  "getVersion example_heap (MapObject 17) = Some ''3.0''"
  by (simp_all add: getVersion_def example_heap_def)

lemma example_DeepEqual_map:
  "\<not> DeepEqual_map example_heap (MapObject 11) (MapObject 10)"
  "DeepEqual_map example_heap (MapObject 14) (MapObject 12)"
proof -
  have "\<not> fmrel DeepEqual_value (example_heap 11) (example_heap 10)"
    by (rule not_fmrel_at [of _ _ "''arch''"]) (simp add: example_heap_def)
  then show "\<not> DeepEqual_map example_heap (MapObject 11) (MapObject 10)"
    by (simp add: DeepEqual_map_objects)
  have "fmrel DeepEqual_value (example_heap 14) (example_heap 12)"
    by (simp add: fmrel_iff example_heap_def option.rel_sel)
  then show "DeepEqual_map example_heap (MapObject 14) (MapObject 12)"
    by (simp add: DeepEqual_map_objects)
qed

lemma example_flat:
  "removeDuplicates example_heap (flatImages example_landscape @ flatImages example_lss) =
     [\<lparr>OsImage.Name = ''Ubuntu'', Version = MapObject 10\<rparr>,
      \<lparr>OsImage.Name = ''Ubuntu'', Version = MapObject 11\<rparr>,
      \<lparr>OsImage.Name = ''GardenLinux'', Version = MapObject 12\<rparr>,
      \<lparr>OsImage.Name = ''Alpine'', Version = MapObject 13\<rparr>]"
  by (simp add: removeDuplicates_def flatImages_def example_landscape_def example_lss_def
      DeepEqual_def example_DeepEqual_map)

lemma example_grouped_sorted:
  "SliceStable (\<lambda>i j. MachineImage.Name i = OsNameGardenLinux
                        \<and> MachineImage.Name j \<noteq> OsNameGardenLinux)
     (SliceStable (\<lambda>i j. MachineImage.Name i < MachineImage.Name j)
        (convertOsImagesToMachineImages rev
           [\<lparr>OsImage.Name = ''Ubuntu'', Version = MapObject 10\<rparr>,
            \<lparr>OsImage.Name = ''Ubuntu'', Version = MapObject 11\<rparr>,
            \<lparr>OsImage.Name = ''GardenLinux'', Version = MapObject 12\<rparr>,
            \<lparr>OsImage.Name = ''Alpine'', Version = MapObject 13\<rparr>])) = example_sorted"
  by (simp add: convertOsImagesToMachineImages_def SliceStable_def OsNameGardenLinux_def
      example_sorted_def)

lemma example_enriched:
  "fst (getFilteredMachineImages example_heap example_sorted [] example_provider_landscape
          example_provider) = Inr example_output"
  by (simp add: getFilteredMachineImages_def getVersionConfig_def getVersion_def
      mergeConfig_object example_provider_def example_provider_landscape_def
      example_output_def example_sorted_def example_heap_def)

lemma example_enriched_disabled:
  "fst (getFilteredMachineImages example_heap example_sorted [''Ubuntu'']
          example_provider_landscape example_provider) = Inr (butlast example_output)"
  by (simp add: getFilteredMachineImages_def getVersionConfig_def getVersion_def
      mergeConfig_object example_provider_def example_provider_landscape_def
      example_output_def example_sorted_def example_heap_def)

lemma example_enriched_ubuntu:
  "entries (snd (getFilteredMachineImages example_heap example_sorted []
                   example_provider_landscape example_provider)) (MapObject 10)
     = fmupd ''version'' (VString ''20.04'')
         (fmupd ''arch'' (VString ''amd64'') (fmupd ''owner'' (VString ''team'') fmempty))"
  by (rule fmap_ext)
     (simp add: getFilteredMachineImages_def getVersionConfig_def getVersion_def
      mergeConfig_object example_provider_def example_provider_landscape_def
      example_sorted_def example_heap_def)

lemma example_run:
  "fst (ComputeMachineImages example_filterOsImages rev example_heap example_lss
          example_landscape example_provider example_provider_landscape [] [] [])
     = Inr example_output"
  by (simp add: ComputeMachineImages_def example_filterOsImages_def example_flat
      example_grouped_sorted example_enriched)

lemma example_run_disabled:
  "fst (ComputeMachineImages example_filterOsImages rev example_heap example_lss
          example_landscape example_provider example_provider_landscape [''Ubuntu''] [] [])
     = Inr (butlast example_output)"
  by (simp add: ComputeMachineImages_def example_filterOsImages_def example_flat
      example_grouped_sorted example_enriched_disabled)


lemma nan_DeepEqual_map:
  "\<not> DeepEqual_map nan_heap (MapObject 11) (MapObject 10)"
  "DeepEqual_map nan_heap (MapObject 11) (MapObject 11)"
  "\<not> DeepEqual_map nan_heap (MapObject 12) (MapObject 10)"
  "\<not> DeepEqual_map nan_heap (MapObject 12) (MapObject 11)"
proof -
  have "\<not> fmrel DeepEqual_value (nan_heap 11) (nan_heap 10)"
    by (rule not_fmrel_at [of _ _ "''load''"]) (simp add: nan_heap_def)
  then show "\<not> DeepEqual_map nan_heap (MapObject 11) (MapObject 10)"
    by (simp add: DeepEqual_map_objects)
  show "DeepEqual_map nan_heap (MapObject 11) (MapObject 11)"
    by (simp add: DeepEqual_map_objects)
  have "\<not> fmrel DeepEqual_value (nan_heap 12) (nan_heap 10)"
    by (rule not_fmrel_at [of _ _ "''load''"]) (simp add: nan_heap_def)
  then show "\<not> DeepEqual_map nan_heap (MapObject 12) (MapObject 10)"
    by (simp add: DeepEqual_map_objects)
  have "\<not> fmrel DeepEqual_value (nan_heap 12) (nan_heap 11)"
    by (rule not_fmrel_at [of _ _ "''load''"]) (simp add: nan_heap_def)
  then show "\<not> DeepEqual_map nan_heap (MapObject 12) (MapObject 11)"
    by (simp add: DeepEqual_map_objects)
qed

lemma nan_removeDuplicates:
  "removeDuplicates nan_heap nan_images =
     [\<lparr>OsImage.Name = ''Ubuntu'', Version = NilMap\<rparr>,
      \<lparr>OsImage.Name = ''Ubuntu'', Version = MapObject 10\<rparr>,
      \<lparr>OsImage.Name = ''Ubuntu'', Version = MapObject 11\<rparr>,
      \<lparr>OsImage.Name = ''Ubuntu'', Version = MapObject 12\<rparr>]"
  by (simp add: removeDuplicates_def nan_images_def DeepEqual_def nan_DeepEqual_map)

theorem removeDuplicates_keeps_first_occurrences_witness:
  "removeDuplicates nan_heap nan_images =
     [\<lparr>OsImage.Name = ''Ubuntu'', Version = NilMap\<rparr>,
      \<lparr>OsImage.Name = ''Ubuntu'', Version = MapObject 10\<rparr>,
      \<lparr>OsImage.Name = ''Ubuntu'', Version = MapObject 11\<rparr>,
      \<lparr>OsImage.Name = ''Ubuntu'', Version = MapObject 12\<rparr>]
   \<and> \<not> DeepEqual nan_heap \<lparr>OsImage.Name = ''Ubuntu'', Version = MapObject 11\<rparr>
                          \<lparr>OsImage.Name = ''Ubuntu'', Version = MapObject 12\<rparr>
   \<and> \<not> DeepEqual nan_heap \<lparr>OsImage.Name = ''Ubuntu'', Version = NilMap\<rparr>
                          \<lparr>OsImage.Name = ''Ubuntu'', Version = MapObject 10\<rparr>"
proof -
  note first = removeDuplicates_keeps_first_occurrences [of nan_heap nan_images]
  from first [THEN conjunct1, rule_format, of 2 3]
  have "\<not> DeepEqual nan_heap \<lparr>OsImage.Name = ''Ubuntu'', Version = MapObject 11\<rparr>
                          \<lparr>OsImage.Name = ''Ubuntu'', Version = MapObject 12\<rparr>"
    by (simp add: nan_removeDuplicates)
  moreover from first [THEN conjunct1, rule_format, of 0 1]
  have "\<not> DeepEqual nan_heap \<lparr>OsImage.Name = ''Ubuntu'', Version = NilMap\<rparr>
                          \<lparr>OsImage.Name = ''Ubuntu'', Version = MapObject 10\<rparr>"
    by (simp add: nan_removeDuplicates)
  ultimately show ?thesis by (simp add: nan_removeDuplicates)
qed

theorem removeDuplicates_idempotent_witness:
  "removeDuplicates nan_heap
     [\<lparr>OsImage.Name = ''Ubuntu'', Version = NilMap\<rparr>,
      \<lparr>OsImage.Name = ''Ubuntu'', Version = MapObject 10\<rparr>,
      \<lparr>OsImage.Name = ''Ubuntu'', Version = MapObject 11\<rparr>,
      \<lparr>OsImage.Name = ''Ubuntu'', Version = MapObject 12\<rparr>]
   = [\<lparr>OsImage.Name = ''Ubuntu'', Version = NilMap\<rparr>,
      \<lparr>OsImage.Name = ''Ubuntu'', Version = MapObject 10\<rparr>,
      \<lparr>OsImage.Name = ''Ubuntu'', Version = MapObject 11\<rparr>,
      \<lparr>OsImage.Name = ''Ubuntu'', Version = MapObject 12\<rparr>]"
  using removeDuplicates_idempotent [of nan_heap nan_images]
  by (simp add: nan_removeDuplicates)

theorem getVersionConfig_landscape_first_witness:
  "getVersionConfig
     ((\<lambda>a. fmempty)
        (10 := fmupd ''version'' (VString ''20.04'')
                 (fmupd ''region'' (VString ''eu'' :: unit val) fmempty),
         11 := fmupd ''version'' (VString ''20.04'')
                 (fmupd ''arch'' (VString ''amd64'') fmempty)))
     ''Ubuntu'' ''20.04''
     [\<lparr>MachineImage.Name = ''Ubuntu'', Versions = [MapObject 10]\<rparr>]
     [\<lparr>MachineImage.Name = ''Ubuntu'', Versions = [MapObject 11]\<rparr>]
   = Some (MapObject 10)
   \<and> getVersionConfigInternal
     ((\<lambda>a. fmempty)
        (10 := fmupd ''version'' (VString ''20.04'')
                 (fmupd ''region'' (VString ''eu'' :: unit val) fmempty),
         11 := fmupd ''version'' (VString ''20.04'')
                 (fmupd ''arch'' (VString ''amd64'') fmempty)))
     ''Ubuntu'' ''20.04''
     [\<lparr>MachineImage.Name = ''Ubuntu'', Versions = [MapObject 11]\<rparr>]
   = Some (MapObject 11)"
  using getVersionConfig_landscape_first
    [of "[\<lparr>MachineImage.Name = ''Ubuntu'', Versions = [MapObject 10]\<rparr>]"
        "''Ubuntu''"
        "(\<lambda>a. fmempty)
        (10 := fmupd ''version'' (VString ''20.04'')
                 (fmupd ''region'' (VString ''eu'' :: unit val) fmempty),
         11 := fmupd ''version'' (VString ''20.04'')
                 (fmupd ''arch'' (VString ''amd64'') fmempty))"
        "''20.04''"
        "[\<lparr>MachineImage.Name = ''Ubuntu'', Versions = [MapObject 11]\<rparr>]"]
  by (simp add: getVersion_def)

theorem ComputeMachineImages_disabled_absent_witness:
  "fst (ComputeMachineImages example_filterOsImages rev example_heap example_lss
          example_landscape example_provider example_provider_landscape [''Ubuntu''] [] [])
     = Inr [\<lparr>MachineImage.Name = ''GardenLinux'', Versions = [MapObject 12]\<rparr>,
            \<lparr>MachineImage.Name = ''Alpine'', Versions = [MapObject 13]\<rparr>]
   \<and> ''Ubuntu'' \<in> set [''Ubuntu'']
   \<and> ''Ubuntu'' \<notin> MachineImage.Name ` set (butlast example_output)"
proof -
  have "ComputeMachineImages example_filterOsImages rev example_heap example_lss
          example_landscape example_provider example_provider_landscape [''Ubuntu''] [] []
     = (Inr (butlast example_output),
        snd (ComputeMachineImages example_filterOsImages rev example_heap example_lss
          example_landscape example_provider example_provider_landscape [''Ubuntu''] [] []))"
    using example_run_disabled by (simp add: prod_eq_iff)
  from ComputeMachineImages_disabled_absent [OF this, of "''Ubuntu''"] example_run_disabled
  show ?thesis by (simp add: example_output_def)
qed

theorem ComputeMachineImages_order_witness:
  "fst (ComputeMachineImages example_filterOsImages rev example_heap example_lss
          example_landscape example_provider example_provider_landscape [] [] [])
     = Inr example_output
   \<and> (\<forall>m :: (string \<times> MachineImageVersion list) list. mset (rev m) = mset m)
   \<and> map MachineImage.Name example_output = [''GardenLinux'', ''Alpine'', ''Ubuntu'']
   \<and> (\<exists>rest. (map MachineImage.Name example_output = OsNameGardenLinux # rest
                 \<or> map MachineImage.Name example_output = rest)
              \<and> OsNameGardenLinux \<notin> set rest \<and> sorted_wrt (<) rest)"
proof -
  have "ComputeMachineImages example_filterOsImages rev example_heap example_lss
          example_landscape example_provider example_provider_landscape [] [] []
     = (Inr example_output,
        snd (ComputeMachineImages example_filterOsImages rev example_heap example_lss
          example_landscape example_provider example_provider_landscape [] [] []))"
    using example_run by (simp add: prod_eq_iff)
  from ComputeMachineImages_order [OF this] example_run
  show ?thesis by (simp add: example_output_def)
qed

theorem getFilteredMachineImages_only_matched_witness:
  "fst (getFilteredMachineImages example_heap example_sorted [] example_provider_landscape
          example_provider) = Inr example_output
   \<and> example_output
       = spec_Enricher example_heap example_sorted [] example_provider_landscape
           example_provider
   \<and> [] \<notin> Versions ` set example_output
   \<and> fmlookup (entries (snd (getFilteredMachineImages example_heap example_sorted []
                                example_provider_landscape example_provider))
                (MapObject 10)) ''arch'' = Some (VString ''amd64'')"
proof -
  have run: "getFilteredMachineImages example_heap example_sorted []
          example_provider_landscape example_provider
     = (Inr example_output,
        snd (getFilteredMachineImages example_heap example_sorted []
               example_provider_landscape example_provider))"
    using example_enriched by (simp add: prod_eq_iff)
  note matched = getFilteredMachineImages_only_matched [OF run]
  from matched have "[] \<notin> Versions ` set example_output"
    by auto
  moreover have
    "fmlookup (entries (snd (getFilteredMachineImages example_heap example_sorted []
                                example_provider_landscape example_provider))
                (MapObject 10)) ''arch'' = Some (VString ''amd64'')"
    unfolding example_enriched_ubuntu by simp
  ultimately show ?thesis
    using matched example_enriched by blast
qed

theorem getFilteredMachineImages_merge_witness:
  "fst (getFilteredMachineImages example_heap example_sorted [] example_provider_landscape
          example_provider) = Inr example_output
   \<and> distinct (concat (map Versions
              (filter (\<lambda>img. MachineImage.Name img \<notin> set []) example_sorted)))
   \<and> set (concat (map Versions
              (filter (\<lambda>img. MachineImage.Name img \<notin> set []) example_sorted)))
           \<inter> set (concat (map Versions (example_provider_landscape @ example_provider))) = {}
   \<and> \<lparr>MachineImage.Name = ''Ubuntu'', Versions = [MapObject 10]\<rparr> \<in> set example_output
   \<and> (\<exists>versionNumber config.
         getVersion example_heap (MapObject 10) = Some versionNumber
         \<and> getVersionConfig example_heap ''Ubuntu'' versionNumber example_provider_landscape
               example_provider = Some config
         \<and> entries (snd (getFilteredMachineImages example_heap example_sorted []
                             example_provider_landscape example_provider)) (MapObject 10)
             = entries example_heap (MapObject 10) ++\<^sub>f entries example_heap config)
   \<and> fmlookup (entries (snd (getFilteredMachineImages example_heap example_sorted []
                                example_provider_landscape example_provider))
                (MapObject 10)) ''arch'' = Some (VString ''amd64'')
   \<and> fmlookup (entries (snd (getFilteredMachineImages example_heap example_sorted []
                                example_provider_landscape example_provider))
                (MapObject 10)) ''owner'' = Some (VString ''team'')"
proof -
  have run: "getFilteredMachineImages example_heap example_sorted []
          example_provider_landscape example_provider
     = (Inr example_output,
        snd (getFilteredMachineImages example_heap example_sorted []
               example_provider_landscape example_provider))"
    using example_enriched by (simp add: prod_eq_iff)
  have d: "distinct (concat (map Versions
              (filter (\<lambda>img. MachineImage.Name img \<notin> set []) example_sorted)))"
    by (simp add: example_sorted_def)
  have c: "set (concat (map Versions
              (filter (\<lambda>img. MachineImage.Name img \<notin> set []) example_sorted)))
           \<inter> set (concat (map Versions (example_provider_landscape @ example_provider))) = {}"
    by (simp add: example_sorted_def example_provider_def example_provider_landscape_def)
  have member: "\<lparr>MachineImage.Name = ''Ubuntu'', Versions = [MapObject 10]\<rparr>
       \<in> set example_output"
    by (simp add: example_output_def)
  have "MapObject 10
          \<in> set (Versions \<lparr>MachineImage.Name = ''Ubuntu'', Versions = [MapObject 10]\<rparr>)"
    by simp
  from getFilteredMachineImages_merge [OF run d c member this]
  have "\<exists>versionNumber config.
         getVersion example_heap (MapObject 10) = Some versionNumber
         \<and> getVersionConfig example_heap ''Ubuntu'' versionNumber example_provider_landscape
               example_provider = Some config
         \<and> entries (snd (getFilteredMachineImages example_heap example_sorted []
                             example_provider_landscape example_provider)) (MapObject 10)
             = entries example_heap (MapObject 10) ++\<^sub>f entries example_heap config"
    by simp blast
  moreover have
    "fmlookup (entries (snd (getFilteredMachineImages example_heap example_sorted []
                                example_provider_landscape example_provider))
                (MapObject 10)) ''arch'' = Some (VString ''amd64'')"
    "fmlookup (entries (snd (getFilteredMachineImages example_heap example_sorted []
                                example_provider_landscape example_provider))
                (MapObject 10)) ''owner'' = Some (VString ''team'')"
    unfolding example_enriched_ubuntu by simp_all
  ultimately show ?thesis
    using d c member example_enriched by blast
qed

end
